theory Spec2Isabelle
  imports Complex_Main
begin

section \<open>The hindsight experience replay buffer of \<^verbatim>\<open>her/replay_buffer.py\<close>\<close>

text \<open>
  The class \<^verbatim>\<open>HindsightExperienceReplayBuffer\<close> is embedded as a record of its
  attributes and one function per method. Conventions:

  \<^item> A method that mutates \<^verbatim>\<open>self\<close> takes the buffer and returns a pair: the exception
    it raised (\<open>None\<close> when it returned normally) and the buffer as the method left it.
    The buffer of a failed call is the one the exception leaves behind, so what was
    written before the \<^verbatim>\<open>raise\<close> is visible.
  \<^item> The constructor asserts \<^verbatim>\<open>n_envs == 1\<close>. An observation handed to \<^verbatim>\<open>add\<close> is an
    array of shape \<^verbatim>\<open>(1,) + obs_shape\<close>; it is a value of the type variable \<open>'o\<close>, and
    \<^verbatim>\<open>obs[0]\<close>, the row of the only environment, is that value again. Actions are \<open>'a\<close>,
    rewards \<open>'r\<close>. The arrays are not modelled below this level: element types
    (\<^verbatim>\<open>float32\<close>) and trailing dimensions are taken to fit, as the arrays allocated by
    the constructor require.
  \<^item> The two storage layouts have different shapes. The flat layout
    (\<^verbatim>\<open>add_her_while_sampling = False\<close>) uses the fields \<open>observations\<close>,
    \<open>next_observations\<close>, \<open>actions\<close>, \<open>rewards\<close>, \<open>dones\<close>, one entry per slot; the
    per-episode layout uses \<open>ep_observations\<close>, \<open>ep_actions\<close>, \<open>ep_rewards\<close>,
    \<open>ep_dones\<close> (one row of time steps per slot) and \<open>n_episode_steps\<close>. In the source
    both layouts live in the same attributes \<^verbatim>\<open>self.observations\<close>, \<^verbatim>\<open>self.actions\<close>, ...
  \<^item> Python's \<^verbatim>\<open>_add_transition\<close> branches on \<^verbatim>\<open>add_her_while_sampling\<close> and its
    arguments are single steps in one branch and whole-episode arrays in the other; the
    branches are \<open>add_transition_flat\<close> and \<open>add_transition_episode\<close>, and the caller
    \<open>store_episode\<close> selects one by the same flag.
  \<^item> The random generator is an argument: a stream \<open>nat \<Rightarrow> nat\<close> of the indices it
    draws for \<^verbatim>\<open>np.random.choice\<close> and \<^verbatim>\<open>np.random.randint\<close>, and a stream
    \<open>nat \<Rightarrow> real\<close> of the numbers in \<open>[0, 1)\<close> behind \<^verbatim>\<open>np.random.uniform\<close>.
    Floating-point products are computed exactly.
\<close>

subsection \<open>Strategies and exceptions\<close>

datatype GoalSelectionStrategy = FUTURE | FINAL | EPISODE | RANDOM

definition KEY_TO_GOAL_STRATEGY :: "string \<rightharpoonup> GoalSelectionStrategy" where
  "KEY_TO_GOAL_STRATEGY =
     [''future'' \<mapsto> FUTURE, ''final'' \<mapsto> FINAL, ''episode'' \<mapsto> EPISODE, ''random'' \<mapsto> RANDOM]"

text \<open>
  \<open>EpisodeException\<close> is the plain \<^verbatim>\<open>Exception("obs needs to be an episode of
  observations")\<close> of \<^verbatim>\<open>_add_transition\<close>; the others are Python's and numpy's own.
\<close>

datatype error =
    AssertionError
  | KeyError
  | ZeroDivisionError
  | IndexError
  | ValueError
  | NotImplementedError
  | EpisodeException

subsection \<open>The buffer\<close>

type_synonym ('o, 'a, 'r) transition = "'o \<times> 'o \<times> 'a \<times> 'r \<times> bool"

record ('o, 'a, 'r) her_buffer =
  buffer_size :: nat
  obs_shape :: "nat list"
  max_episode_len :: nat
  add_her_while_sampling :: bool
  goal_selection_strategy :: GoalSelectionStrategy
  n_sampled_goal :: nat
  pos :: nat
  full :: bool
  episode_transitions :: "('o, 'a, 'r) transition list"
  observations :: "'o list"
  next_observations :: "'o list"
  actions :: "'a list"
  rewards :: "'r list"
  dones :: "bool list"
  ep_observations :: "'o list list"
  ep_actions :: "'a list list"
  ep_rewards :: "'r list list"
  ep_dones :: "bool list list"
  n_episode_steps :: "nat list"

text \<open>
  \<^verbatim>\<open>__init__\<close>. Modelled from the spec: the base class \<^verbatim>\<open>BaseBuffer\<close> is not part of the
  sources; its constructor stores \<^verbatim>\<open>buffer_size\<close>, \<^verbatim>\<open>obs_shape\<close> and \<^verbatim>\<open>n_envs\<close> and
  starts with \<^verbatim>\<open>pos = 0\<close> and \<^verbatim>\<open>full = False\<close>. Sizes are naturals: \<^verbatim>\<open>np.zeros\<close> rejects
  a negative one. \<^verbatim>\<open>np.zeros\<close> is \<open>replicate n 0\<close>, and \<open>False\<close> for the done flags.
\<close>

definition init ::
  "nat \<Rightarrow> nat list \<Rightarrow> nat \<Rightarrow> nat \<Rightarrow> bool \<Rightarrow> string \<Rightarrow> nat \<Rightarrow>
     error + ('o::zero, 'a::zero, 'r::zero) her_buffer" where
  "init sz shp max_len n_envs her_while_sampling strategy n_goal =
     (if n_envs \<noteq> 1 then Inl AssertionError
      else case KEY_TO_GOAL_STRATEGY strategy of
        None \<Rightarrow> Inl KeyError
      | Some s \<Rightarrow>
          if \<not> her_while_sampling then
            Inr \<lparr> buffer_size = sz, obs_shape = shp, max_episode_len = max_len,
                  add_her_while_sampling = her_while_sampling,
                  goal_selection_strategy = s, n_sampled_goal = n_goal,
                  pos = 0, full = False, episode_transitions = [],
                  observations = replicate sz 0,
                  next_observations = replicate sz 0,
                  actions = replicate sz 0,
                  rewards = replicate sz 0,
                  dones = replicate sz False,
                  ep_observations = [], ep_actions = [], ep_rewards = [], ep_dones = [],
                  n_episode_steps = [] \<rparr>
          else if max_len = 0 then Inl ZeroDivisionError
          else
            Inr \<lparr> buffer_size = sz, obs_shape = shp, max_episode_len = max_len,
                  add_her_while_sampling = her_while_sampling,
                  goal_selection_strategy = s, n_sampled_goal = n_goal,
                  pos = 0, full = False, episode_transitions = [],
                  observations = [], next_observations = [], actions = [], rewards = [],
                  dones = [],
                  ep_observations = replicate (sz div max_len) (replicate (max_len + 1) 0),
                  ep_actions = replicate (sz div max_len) (replicate max_len 0),
                  ep_rewards = replicate (sz div max_len) (replicate max_len 0),
                  ep_dones = replicate (sz div max_len) (replicate max_len False),
                  n_episode_steps = replicate (sz div max_len) 0 \<rparr>)"

subsection \<open>Statements that may raise\<close>

text \<open>
  A method body is a list of statements run in order; the first exception ends the run
  and leaves the buffer as it is at that point.
\<close>

type_synonym 's stmt = "'s \<Rightarrow> error option \<times> 's"

fun exec :: "'s stmt list \<Rightarrow> 's stmt" where
  "exec [] s = (None, s)"
| "exec (c # cs) s = (case c s of (Some e, s') \<Rightarrow> (Some e, s') | (None, s') \<Rightarrow> exec cs s')"

text \<open>\<^verbatim>\<open>xs[i] = v\<close> on an array of one axis: \<^verbatim>\<open>IndexError\<close> past the end.\<close>

definition set_slot :: "'v list \<Rightarrow> nat \<Rightarrow> 'v \<Rightarrow> 'v list option" where
  "set_slot xs i v = (if i < length xs then Some (xs[i := v]) else None)"

text \<open>
  \<^verbatim>\<open>row[:n] = vals\<close>: the slice has \<open>min n (length row)\<close> entries; \<open>vals\<close> must have as
  many, or one entry, which numpy broadcasts; anything else is the \<^verbatim>\<open>ValueError\<close>
  "could not broadcast input array".
\<close>

definition assign_rows :: "'v list \<Rightarrow> nat \<Rightarrow> 'v list \<Rightarrow> 'v list option" where
  "assign_rows row n vals =
     (let m = min n (length row) in
      if length vals = m then Some (vals @ drop m row)
      else if length vals = 1 then Some (replicate m (hd vals) @ drop m row)
      else None)"

text \<open>\<^verbatim>\<open>arr[p, :n] = vals\<close>: the index \<open>p\<close> is checked first.\<close>

definition assign_slot_rows :: "'v list list \<Rightarrow> nat \<Rightarrow> nat \<Rightarrow> 'v list \<Rightarrow> error + 'v list list" where
  "assign_slot_rows arr p n vals =
     (if p < length arr then
        (case assign_rows (arr ! p) n vals of
           None \<Rightarrow> Inl ValueError
         | Some row \<Rightarrow> Inr (arr[p := row]))
      else Inl IndexError)"

subsection \<open>\<^verbatim>\<open>_add_transition\<close>, flat layout (lines 263-273)\<close>

definition store_observations :: "'o \<Rightarrow> ('o, 'a, 'r) her_buffer stmt" where
  "store_observations v b =
     (case set_slot (observations b) (pos b) v of
        None \<Rightarrow> (Some IndexError, b)
      | Some xs \<Rightarrow> (None, b\<lparr>observations := xs\<rparr>))"

definition store_next_observations :: "'o \<Rightarrow> ('o, 'a, 'r) her_buffer stmt" where
  "store_next_observations v b =
     (case set_slot (next_observations b) (pos b) v of
        None \<Rightarrow> (Some IndexError, b)
      | Some xs \<Rightarrow> (None, b\<lparr>next_observations := xs\<rparr>))"

definition store_actions :: "'a \<Rightarrow> ('o, 'a, 'r) her_buffer stmt" where
  "store_actions v b =
     (case set_slot (actions b) (pos b) v of
        None \<Rightarrow> (Some IndexError, b)
      | Some xs \<Rightarrow> (None, b\<lparr>actions := xs\<rparr>))"

definition store_rewards :: "'r \<Rightarrow> ('o, 'a, 'r) her_buffer stmt" where
  "store_rewards v b =
     (case set_slot (rewards b) (pos b) v of
        None \<Rightarrow> (Some IndexError, b)
      | Some xs \<Rightarrow> (None, b\<lparr>rewards := xs\<rparr>))"

definition store_dones :: "bool \<Rightarrow> ('o, 'a, 'r) her_buffer stmt" where
  "store_dones v b =
     (case set_slot (dones b) (pos b) v of
        None \<Rightarrow> (Some IndexError, b)
      | Some xs \<Rightarrow> (None, b\<lparr>dones := xs\<rparr>))"

text \<open>\<^verbatim>\<open>self.pos += 1\<close>, then the wrap-around of lines 271-273.\<close>

definition incr_pos :: "('o, 'a, 'r) her_buffer stmt" where
  "incr_pos b = (None, b\<lparr>pos := pos b + 1\<rparr>)"

definition wrap_flat :: "('o, 'a, 'r) her_buffer stmt" where
  "wrap_flat b =
     (if pos b = buffer_size b then (None, b\<lparr>full := True, pos := 0\<rparr>) else (None, b))"

definition add_transition_flat ::
  "('o, 'a, 'r) transition \<Rightarrow> ('o, 'a, 'r) her_buffer stmt" where
  "add_transition_flat tr =
     (case tr of (obs, next_obs, action, reward, done) \<Rightarrow>
        exec [store_observations obs, store_next_observations next_obs, store_actions action,
              store_rewards reward, store_dones done, incr_pos, wrap_flat])"

subsection \<open>\<^verbatim>\<open>_add_transition\<close>, per-episode layout (lines 274-290)\<close>

text \<open>
  A whole-episode array as the source inspects it: the number of its dimensions
  (\<^verbatim>\<open>len(a.shape)\<close>) and its entries along the first axis (\<^verbatim>\<open>len(a)\<close> of them).
\<close>

datatype 'c ndarray = NDArray (ndim: nat) (rows: "'c list")

record ('o, 'a, 'r) episode =
  ep_obs :: "'o ndarray"
  ep_next_obs :: "'o ndarray"
  ep_action :: "'a list"
  ep_reward :: "'r list"
  ep_done :: "bool list"

text \<open>
  The right-hand side of line 279. \<^verbatim>\<open>next_obs[np.newaxis, -1]\<close> is an \<^verbatim>\<open>IndexError\<close> on
  an array without an axis or without entries; \<^verbatim>\<open>np.append(..., axis=0)\<close> is a
  \<^verbatim>\<open>ValueError\<close> when the two arrays differ in their number of dimensions.
\<close>

definition obs_with_last :: "'o ndarray \<Rightarrow> 'o ndarray \<Rightarrow> error + 'o list" where
  "obs_with_last obs next_obs =
     (if ndim next_obs = 0 \<or> rows next_obs = [] then Inl IndexError
      else if ndim next_obs \<noteq> ndim obs then Inl ValueError
      else Inr (rows obs @ [last (rows next_obs)]))"

definition store_ep_observations ::
  "nat \<Rightarrow> 'o ndarray \<Rightarrow> 'o ndarray \<Rightarrow> ('o, 'a, 'r) her_buffer stmt" where
  "store_ep_observations len_episode obs next_obs b =
     (case obs_with_last obs next_obs of
        Inl e \<Rightarrow> (Some e, b)
      | Inr vals \<Rightarrow>
          (case assign_slot_rows (ep_observations b) (pos b) (len_episode + 1) vals of
             Inl e \<Rightarrow> (Some e, b)
           | Inr arr \<Rightarrow> (None, b\<lparr>ep_observations := arr\<rparr>)))"

definition store_ep_actions :: "nat \<Rightarrow> 'a list \<Rightarrow> ('o, 'a, 'r) her_buffer stmt" where
  "store_ep_actions len_episode vals b =
     (case assign_slot_rows (ep_actions b) (pos b) len_episode vals of
        Inl e \<Rightarrow> (Some e, b)
      | Inr arr \<Rightarrow> (None, b\<lparr>ep_actions := arr\<rparr>))"

definition store_ep_rewards :: "nat \<Rightarrow> 'r list \<Rightarrow> ('o, 'a, 'r) her_buffer stmt" where
  "store_ep_rewards len_episode vals b =
     (case assign_slot_rows (ep_rewards b) (pos b) len_episode vals of
        Inl e \<Rightarrow> (Some e, b)
      | Inr arr \<Rightarrow> (None, b\<lparr>ep_rewards := arr\<rparr>))"

definition store_ep_dones :: "nat \<Rightarrow> bool list \<Rightarrow> ('o, 'a, 'r) her_buffer stmt" where
  "store_ep_dones len_episode vals b =
     (case assign_slot_rows (ep_dones b) (pos b) len_episode vals of
        Inl e \<Rightarrow> (Some e, b)
      | Inr arr \<Rightarrow> (None, b\<lparr>ep_dones := arr\<rparr>))"

definition store_n_episode_steps :: "nat \<Rightarrow> ('o, 'a, 'r) her_buffer stmt" where
  "store_n_episode_steps len_episode b =
     (case set_slot (n_episode_steps b) (pos b) len_episode of
        None \<Rightarrow> (Some IndexError, b)
      | Some xs \<Rightarrow> (None, b\<lparr>n_episode_steps := xs\<rparr>))"

text \<open>
  Lines 288-290: \<^verbatim>\<open>self.buffer_size // self.max_episode_len\<close> is evaluated after the
  position has moved.
\<close>

definition wrap_episode :: "('o, 'a, 'r) her_buffer stmt" where
  "wrap_episode b =
     (if max_episode_len b = 0 then (Some ZeroDivisionError, b)
      else if pos b = buffer_size b div max_episode_len b
        then (None, b\<lparr>full := True, pos := 0\<rparr>)
      else (None, b))"

definition add_transition_episode ::
  "('o, 'a, 'r) episode \<Rightarrow> ('o, 'a, 'r) her_buffer stmt" where
  "add_transition_episode ep b =
     (if 2 \<le> ndim (ep_obs ep) then
        (let len_episode = length (rows (ep_obs ep)) in
         exec [store_ep_observations len_episode (ep_obs ep) (ep_next_obs ep),
               store_ep_actions len_episode (ep_action ep),
               store_ep_rewards len_episode (ep_reward ep),
               store_ep_dones len_episode (ep_done ep),
               store_n_episode_steps len_episode,
               incr_pos, wrap_episode] b)
      else (Some EpisodeException, b))"

subsection \<open>The goal environment\<close>

text \<open>
  \<^verbatim>\<open>self.env\<close> is the wrapped environment, an argument of the constructor whose class is
  not part of the sources. Its three operations are parameters of the model. An
  observation splits into the three entries of a dictionary; \<^verbatim>\<open>compute_reward\<close> is
  always called with \<^verbatim>\<open>None\<close> as its third argument, which is left out.
\<close>

record ('x, 'g) obs_dict =
  observation :: 'x
  achieved_goal :: 'g
  desired_goal :: 'g

record ('o, 'x, 'g, 'r) goal_env =
  convert_obs_to_dict :: "'o \<Rightarrow> ('x, 'g) obs_dict"
  convert_dict_to_obs :: "('x, 'g) obs_dict \<Rightarrow> 'o"
  compute_reward :: "'g \<Rightarrow> 'g \<Rightarrow> 'r"

subsection \<open>\<^verbatim>\<open>_sample_achieved_goal\<close> and \<^verbatim>\<open>_sample_achieved_goals\<close> (lines 292-332)\<close>

text \<open>
  \<^verbatim>\<open>np.random.choice(a)\<close> returns the entry of \<open>a\<close> at an index the generator draws
  below \<open>len(a)\<close>, and raises \<^verbatim>\<open>ValueError\<close> on an empty array. The generator's draw
  \<open>r\<close> is reduced modulo the length, so every draw is an index of the array and every
  index is some draw.
\<close>

definition np_random_choice :: "nat \<Rightarrow> 'v list \<Rightarrow> error + 'v" where
  "np_random_choice r xs = (if xs = [] then Inl ValueError else Inr (xs ! (r mod length xs)))"

text \<open>
  Lines 315-331: the index of the selected transition. A strategy that draws uses the
  head of the generator's stream and leaves the rest. The last \<^verbatim>\<open>else\<close> of the source
  (an unknown strategy) has no case: the enumeration has four members.
\<close>

definition select_transition ::
  "('o, 'a, 'r) her_buffer \<Rightarrow> ('o, 'a, 'r) transition list \<Rightarrow> nat \<Rightarrow> (nat \<Rightarrow> nat) \<Rightarrow>
     (error + nat) \<times> (nat \<Rightarrow> nat)" where
  "select_transition b episode transition_idx gen =
     (case goal_selection_strategy b of
        FUTURE \<Rightarrow>
          (case np_random_choice (gen 0) [transition_idx + 1 ..< length episode] of
             Inl e \<Rightarrow> (Inl e, gen)
           | Inr selected_idx \<Rightarrow> (Inr selected_idx, gen \<circ> Suc))
      | FINAL \<Rightarrow>
          (if episode = [] then (Inl IndexError, gen) else (Inr (length episode - 1), gen))
      | EPISODE \<Rightarrow>
          (case np_random_choice (gen 0) [0 ..< length episode] of
             Inl e \<Rightarrow> (Inl e, gen)
           | Inr selected_idx \<Rightarrow> (Inr selected_idx, gen \<circ> Suc))
      | RANDOM \<Rightarrow> (Inl NotImplementedError, gen))"

text \<open>Line 332: the achieved goal of the selected transition's observation.\<close>

definition sample_achieved_goal ::
  "('o, 'x, 'g, 'r) goal_env \<Rightarrow> ('o, 'a, 'r) her_buffer \<Rightarrow> ('o, 'a, 'r) transition list \<Rightarrow>
     nat \<Rightarrow> (nat \<Rightarrow> nat) \<Rightarrow> (error + 'g) \<times> (nat \<Rightarrow> nat)" where
  "sample_achieved_goal env b episode transition_idx gen =
     (case select_transition b episode transition_idx gen of
        (Inl e, gen') \<Rightarrow> (Inl e, gen')
      | (Inr selected_idx, gen') \<Rightarrow>
          (Inr (achieved_goal (convert_obs_to_dict env (fst (episode ! selected_idx)))), gen'))"

text \<open>The list comprehension of lines 301-304, \<open>n\<close> calls in a row.\<close>

fun sample_goals ::
  "('o, 'x, 'g, 'r) goal_env \<Rightarrow> ('o, 'a, 'r) her_buffer \<Rightarrow> ('o, 'a, 'r) transition list \<Rightarrow>
     nat \<Rightarrow> nat \<Rightarrow> (nat \<Rightarrow> nat) \<Rightarrow> (error + 'g list) \<times> (nat \<Rightarrow> nat)" where
  "sample_goals env b episode transition_idx 0 gen = (Inr [], gen)"
| "sample_goals env b episode transition_idx (Suc n) gen =
     (case sample_achieved_goal env b episode transition_idx gen of
        (Inl e, gen') \<Rightarrow> (Inl e, gen')
      | (Inr goal, gen') \<Rightarrow>
          (case sample_goals env b episode transition_idx n gen' of
             (Inl e, gen'') \<Rightarrow> (Inl e, gen'')
           | (Inr goals, gen'') \<Rightarrow> (Inr (goal # goals), gen'')))"

definition sample_achieved_goals ::
  "('o, 'x, 'g, 'r) goal_env \<Rightarrow> ('o, 'a, 'r) her_buffer \<Rightarrow> ('o, 'a, 'r) transition list \<Rightarrow>
     nat \<Rightarrow> (nat \<Rightarrow> nat) \<Rightarrow> (error + 'g list) \<times> (nat \<Rightarrow> nat)" where
  "sample_achieved_goals env b episode transition_idx gen =
     sample_goals env b episode transition_idx (n_sampled_goal b) gen"

subsection \<open>\<^verbatim>\<open>_store_episode\<close> (lines 207-255) and \<^verbatim>\<open>add\<close> (lines 104-124)\<close>

text \<open>
  Lines 232-247: the artificial transition made from a copy of \<open>transition\<close> and a goal.
\<close>

definition relabel ::
  "('o, 'x, 'g, 'r) goal_env \<Rightarrow> ('o, 'a, 'r) transition \<Rightarrow> 'g \<Rightarrow> ('o, 'a, 'r) transition" where
  "relabel env transition goal =
     (case transition of (obs, next_obs, action, reward, done) \<Rightarrow>
        (let obs_dict = (convert_obs_to_dict env obs)\<lparr>desired_goal := goal\<rparr>;
             next_obs_dict = (convert_obs_to_dict env next_obs)\<lparr>desired_goal := goal\<rparr>;
             reward' = compute_reward env (achieved_goal next_obs_dict) goal;
             done' = False
         in (convert_dict_to_obs env obs_dict, convert_dict_to_obs env next_obs_dict,
             action, reward', done')))"

text \<open>Lines 230-250: one artificial transition is stored for each sampled goal.\<close>

definition store_goals ::
  "('o, 'x, 'g, 'r) goal_env \<Rightarrow> ('o, 'a, 'r) transition \<Rightarrow> 'g list \<Rightarrow>
     ('o, 'a, 'r) her_buffer stmt" where
  "store_goals env transition goals =
     exec (map (\<lambda>goal. add_transition_flat (relabel env transition goal)) goals)"

text \<open>
  The loop of lines 216-250 over \<^verbatim>\<open>enumerate(self.episode_transitions)\<close>: \<open>rest\<close> is what
  is left of the list and \<open>transition_idx\<close> the index of its head. The result is the
  exception, the buffer and the generator.
\<close>

fun store_loop ::
  "('o, 'x, 'g, 'r) goal_env \<Rightarrow> nat \<Rightarrow> ('o, 'a, 'r) transition list \<Rightarrow> (nat \<Rightarrow> nat) \<Rightarrow>
     ('o, 'a, 'r) her_buffer \<Rightarrow> error option \<times> ('o, 'a, 'r) her_buffer \<times> (nat \<Rightarrow> nat)" where
  "store_loop env transition_idx [] gen b = (None, b, gen)"
| "store_loop env transition_idx (transition # rest) gen b =
     (case add_transition_flat transition b of
        (Some e, b1) \<Rightarrow> (Some e, b1, gen)
      | (None, b1) \<Rightarrow>
          if int transition_idx = int (length (episode_transitions b1)) - 1
             \<and> goal_selection_strategy b1 = FUTURE
          then (None, b1, gen)
          else
            (case sample_achieved_goals env b1 (episode_transitions b1) transition_idx gen of
               (Inl e, gen') \<Rightarrow> (Some e, b1, gen')
             | (Inr sampled_goals, gen') \<Rightarrow>
                 (case store_goals env transition sampled_goals b1 of
                    (Some e, b2) \<Rightarrow> (Some e, b2, gen')
                  | (None, b2) \<Rightarrow> store_loop env (Suc transition_idx) rest gen' b2)))"

text \<open>
  Lines 253-254: \<^verbatim>\<open>np.array\<close> of each of the five columns of the episode. Unpacking
  the columns of an empty episode is a \<^verbatim>\<open>ValueError\<close>. The stacked observations have one
  axis more than a single observation of shape \<^verbatim>\<open>(1,) + obs_shape\<close>.
\<close>

definition zip_episode ::
  "('o, 'a, 'r) her_buffer \<Rightarrow> error + ('o, 'a, 'r) episode" where
  "zip_episode b =
     (let ts = episode_transitions b; d = Suc (Suc (length (obs_shape b))) in
      if ts = [] then Inl ValueError
      else Inr \<lparr> ep_obs = NDArray d (map (\<lambda>(obs, next_obs, action, reward, done). obs) ts),
                 ep_next_obs = NDArray d (map (\<lambda>(obs, next_obs, action, reward, done). next_obs) ts),
                 ep_action = map (\<lambda>(obs, next_obs, action, reward, done). action) ts,
                 ep_reward = map (\<lambda>(obs, next_obs, action, reward, done). reward) ts,
                 ep_done = map (\<lambda>(obs, next_obs, action, reward, done). done) ts \<rparr>)"

definition store_episode ::
  "('o, 'x, 'g, 'r) goal_env \<Rightarrow> (nat \<Rightarrow> nat) \<Rightarrow> ('o, 'a, 'r) her_buffer \<Rightarrow>
     error option \<times> ('o, 'a, 'r) her_buffer \<times> (nat \<Rightarrow> nat)" where
  "store_episode env gen b =
     (if \<not> add_her_while_sampling b then store_loop env 0 (episode_transitions b) gen b
      else
        (case zip_episode b of
           Inl e \<Rightarrow> (Some e, b, gen)
         | Inr ep \<Rightarrow> (case add_transition_episode ep b of (e, b') \<Rightarrow> (e, b', gen))))"

text \<open>
  \<^verbatim>\<open>add\<close>: the accumulator is emptied in the statement after \<^verbatim>\<open>_store_episode\<close>, which
  an exception of \<^verbatim>\<open>_store_episode\<close> skips.
\<close>

definition add ::
  "('o, 'x, 'g, 'r) goal_env \<Rightarrow> (nat \<Rightarrow> nat) \<Rightarrow> ('o, 'a, 'r) transition \<Rightarrow>
     ('o, 'a, 'r) her_buffer \<Rightarrow> error option \<times> ('o, 'a, 'r) her_buffer \<times> (nat \<Rightarrow> nat)" where
  "add env gen transition b =
     (let b1 = b\<lparr>episode_transitions := episode_transitions b @ [transition]\<rparr> in
      if snd (snd (snd (snd transition))) then
        (case store_episode env gen b1 of
           (Some e, b2, gen') \<Rightarrow> (Some e, b2, gen')
         | (None, b2, gen') \<Rightarrow> (None, b2\<lparr>episode_transitions := []\<rparr>, gen'))
      else (None, b1, gen))"

subsection \<open>\<^verbatim>\<open>_get_samples\<close> (lines 126-190)\<close>

text \<open>
  \<^verbatim>\<open>ReplayBufferSamples\<close> in the order the source builds it: observations, actions, next
  observations, done flags, rewards, one entry per row of the batch. \<^verbatim>\<open>to_torch\<close>
  changes the container only.
\<close>

record ('o, 'a, 'r) ReplayBufferSamples =
  sample_observations :: "'o list"
  sample_actions :: "'a list"
  sample_next_observations :: "'o list"
  sample_dones :: "bool list"
  sample_rewards :: "'r list"

text \<open>
  Modelled from the spec: \<^verbatim>\<open>_normalize_obs\<close> and \<^verbatim>\<open>_normalize_reward\<close> belong to the base
  class. They apply the normalizer given to \<^verbatim>\<open>sample\<close> and are the identity when it is
  \<^verbatim>\<open>None\<close>.
\<close>

record ('o, 'r) vec_normalize =
  normalize_obs :: "'o \<Rightarrow> 'o"
  normalize_reward :: "'r \<Rightarrow> 'r"

definition normalize_obs_opt :: "('o, 'r) vec_normalize option \<Rightarrow> 'o \<Rightarrow> 'o" where
  "normalize_obs_opt vn x = (case vn of None \<Rightarrow> x | Some v \<Rightarrow> normalize_obs v x)"

definition normalize_reward_opt :: "('o, 'r) vec_normalize option \<Rightarrow> 'r \<Rightarrow> 'r" where
  "normalize_reward_opt vn x = (case vn of None \<Rightarrow> x | Some v \<Rightarrow> normalize_reward v x)"

text \<open>
  Indexing with a numpy integer: a negative index counts from the end, an index
  outside the array is an \<^verbatim>\<open>IndexError\<close> (here \<open>None\<close>).
\<close>

definition py_get :: "'v list \<Rightarrow> int \<Rightarrow> 'v option" where
  "py_get xs i =
     (if 0 \<le> i \<and> i < int (length xs) then Some (xs ! nat i)
      else if i < 0 \<and> - int (length xs) \<le> i then Some (xs ! nat (int (length xs) + i))
      else None)"

text \<open>
  \<^verbatim>\<open>np.random.uniform(low, high)\<close> is \<open>low + (high - low) * u\<close> for the generator's
  number \<open>u\<close> in \<open>[0, 1)\<close>. \<^verbatim>\<open>astype(int)\<close> drops the fraction.
\<close>

definition np_random_uniform :: "real \<Rightarrow> real \<Rightarrow> real \<Rightarrow> real" where
  "np_random_uniform low high u = low + (high - low) * u"

definition astype_int :: "real \<Rightarrow> int" where
  "astype_int x = (if 0 \<le> x then \<lfloor>x\<rfloor> else \<lceil>x\<rceil>)"

text \<open>
  Line 161: \<^verbatim>\<open>np.random.uniform(max_timestep_inds)\<close> passes the episode length as the
  first parameter of \<^verbatim>\<open>uniform\<close>, which is \<^verbatim>\<open>low\<close>; \<^verbatim>\<open>high\<close> keeps its default 1.0.
\<close>

definition timestep_ind :: "nat \<Rightarrow> real \<Rightarrow> int" where
  "timestep_ind max_timestep u = astype_int (real_of_int \<lfloor>np_random_uniform (real max_timestep) 1 u\<rfloor>)"

text \<open>Lines 167-169.\<close>

definition future_t_ind :: "nat \<Rightarrow> int \<Rightarrow> real \<Rightarrow> int" where
  "future_t_ind max_timestep timestep u =
     timestep + 1 + astype_int (u * (real max_timestep - real_of_int timestep))"

text \<open>Line 144.\<close>

definition future_p :: "('o, 'a, 'r) her_buffer \<Rightarrow> real" where
  "future_p b = 1 - (1 / (1 + real (n_sampled_goal b)))"

text \<open>
  Lines 175-177 for one row of the batch: the observations of the episode as
  dictionaries, with the desired goal of every time step replaced by the achieved goal
  at \<open>future_t\<close> when the row is one of \<^verbatim>\<open>her_inds\<close>.
\<close>

definition relabel_episode ::
  "('o, 'x, 'g, 'r) goal_env \<Rightarrow> 'o list \<Rightarrow> bool \<Rightarrow> int \<Rightarrow> error + ('x, 'g) obs_dict list" where
  "relabel_episode env episode_obs her future_t =
     (let observations_dict = map (convert_obs_to_dict env) episode_obs in
      if her then
        (case py_get observations_dict future_t of
           None \<Rightarrow> Inl IndexError
         | Some d \<Rightarrow>
             Inr (map (\<lambda>d'. d'\<lparr>desired_goal := achieved_goal d\<rparr>) observations_dict))
      else Inr observations_dict)"

text \<open>
  Lines 159-188 for the row at position \<open>k\<close> of a batch of \<open>batch_size\<close> episodes:
  \<open>us\<close> is the stream of numbers the three calls of \<^verbatim>\<open>np.random.uniform\<close> consume, each
  call \<open>batch_size\<close> of them. The result is the row (observation, action, next observation,
  done, reward) before normalization.
\<close>

definition lazy_row ::
  "('o, 'x, 'g, 'r) goal_env \<Rightarrow> ('o, 'a, 'r) her_buffer \<Rightarrow> nat \<Rightarrow> (nat \<Rightarrow> real) \<Rightarrow>
     nat \<Rightarrow> nat \<Rightarrow> error + ('o \<times> 'a \<times> 'o \<times> bool \<times> 'r)" where
  "lazy_row env b batch_size us episode_ind k =
     (if episode_ind < length (n_episode_steps b) \<and> episode_ind < length (ep_observations b)
         \<and> episode_ind < length (ep_actions b) \<and> episode_ind < length (ep_dones b)
      then
        (let max_timestep = n_episode_steps b ! episode_ind;
             timestep = timestep_ind max_timestep (us k);
             her = (us (batch_size + k) < future_p b);
             future_t = future_t_ind max_timestep timestep (us (2 * batch_size + k))
         in case relabel_episode env (ep_observations b ! episode_ind) her future_t of
              Inl e \<Rightarrow> Inl e
            | Inr observations_dict \<Rightarrow>
                (let rewards_row =
                       map (\<lambda>d. compute_reward env (achieved_goal d) (desired_goal d))
                         (tl observations_dict);
                     obs = map (convert_dict_to_obs env) observations_dict
                 in case (py_get obs timestep, py_get (ep_actions b ! episode_ind) timestep,
                          py_get obs (timestep + 1), py_get (ep_dones b ! episode_ind) timestep,
                          py_get rewards_row timestep) of
                      (Some ob, Some ac, Some nob, Some dn, Some rw) \<Rightarrow> Inr (ob, ac, nob, dn, rw)
                    | _ \<Rightarrow> Inl IndexError))
      else Inl IndexError)"

text \<open>Lines 131-135 for one index of the batch.\<close>

definition flat_row ::
  "('o, 'a, 'r) her_buffer \<Rightarrow> nat \<Rightarrow> error + ('o \<times> 'a \<times> 'o \<times> bool \<times> 'r)" where
  "flat_row b i =
     (if i < length (observations b) \<and> i < length (actions b) \<and> i < length (next_observations b)
         \<and> i < length (dones b) \<and> i < length (rewards b)
      then Inr (observations b ! i, actions b ! i, next_observations b ! i, dones b ! i, rewards b ! i)
      else Inl IndexError)"

text \<open>The rows of a batch, or the first exception among them.\<close>

fun collect :: "(error + 'v) list \<Rightarrow> error + 'v list" where
  "collect [] = Inr []"
| "collect (Inl e # rs) = Inl e"
| "collect (Inr v # rs) = (case collect rs of Inl e \<Rightarrow> Inl e | Inr vs \<Rightarrow> Inr (v # vs))"

definition to_samples ::
  "('o, 'r) vec_normalize option \<Rightarrow> ('o \<times> 'a \<times> 'o \<times> bool \<times> 'r) list \<Rightarrow>
     ('o, 'a, 'r) ReplayBufferSamples" where
  "to_samples vn batch =
     \<lparr> sample_observations = map (\<lambda>(ob, ac, nob, dn, rw). normalize_obs_opt vn ob) batch,
       sample_actions = map (\<lambda>(ob, ac, nob, dn, rw). ac) batch,
       sample_next_observations = map (\<lambda>(ob, ac, nob, dn, rw). normalize_obs_opt vn nob) batch,
       sample_dones = map (\<lambda>(ob, ac, nob, dn, rw). dn) batch,
       sample_rewards = map (\<lambda>(ob, ac, nob, dn, rw). normalize_reward_opt vn rw) batch \<rparr>"

definition lazy_rows ::
  "('o, 'x, 'g, 'r) goal_env \<Rightarrow> ('o, 'a, 'r) her_buffer \<Rightarrow> nat list \<Rightarrow> (nat \<Rightarrow> real) \<Rightarrow>
     (error + ('o \<times> 'a \<times> 'o \<times> bool \<times> 'r)) list" where
  "lazy_rows env b batch_inds us =
     map (\<lambda>k. lazy_row env b (length batch_inds) us (batch_inds ! k) k) [0 ..< length batch_inds]"

definition get_samples ::
  "('o, 'x, 'g, 'r) goal_env \<Rightarrow> ('o, 'a, 'r) her_buffer \<Rightarrow> nat list \<Rightarrow>
     ('o, 'r) vec_normalize option \<Rightarrow> (nat \<Rightarrow> real) \<Rightarrow>
     error + ('o, 'a, 'r) ReplayBufferSamples" where
  "get_samples env b batch_inds vn us =
     (if \<not> add_her_while_sampling b then
        (case collect (map (flat_row b) batch_inds) of
           Inl e \<Rightarrow> Inl e
         | Inr batch \<Rightarrow> Inr (to_samples vn batch))
      else
        (case goal_selection_strategy b of
           FUTURE \<Rightarrow>
             (case collect (lazy_rows env b batch_inds us) of
                Inl e \<Rightarrow> Inl e
              | Inr batch \<Rightarrow> Inr (to_samples vn batch))
         | FINAL \<Rightarrow> Inl NotImplementedError
         | EPISODE \<Rightarrow> Inl NotImplementedError
         | RANDOM \<Rightarrow> Inl NotImplementedError))"

subsection \<open>\<^verbatim>\<open>sample\<close> (lines 192-205)\<close>

definition full_idx :: "('o, 'a, 'r) her_buffer \<Rightarrow> error + nat" where
  "full_idx b =
     (if add_her_while_sampling b then
        (if max_episode_len b = 0 then Inl ZeroDivisionError
         else Inr (buffer_size b div max_episode_len b))
      else Inr (buffer_size b))"

definition upper_bound :: "('o, 'a, 'r) her_buffer \<Rightarrow> error + nat" where
  "upper_bound b =
     (case full_idx b of Inl e \<Rightarrow> Inl e | Inr c \<Rightarrow> Inr (if full b then c else pos b))"

text \<open>
  \<^verbatim>\<open>np.random.randint(0, high, size=n)\<close>: \<open>n\<close> indices below \<open>high\<close>, each a draw of the
  generator reduced modulo \<open>high\<close>; \<^verbatim>\<open>ValueError\<close> when \<open>high\<close> is 0 (numpy returns the
  empty array for \<open>n = 0\<close> before it looks at the bounds).
\<close>

definition np_random_randint :: "nat \<Rightarrow> nat \<Rightarrow> (nat \<Rightarrow> nat) \<Rightarrow> error + nat list" where
  "np_random_randint high n gen =
     (if n = 0 then Inr []
      else if high = 0 then Inl ValueError
      else Inr (map (\<lambda>k. gen k mod high) [0 ..< n]))"

definition sample_batch_inds ::
  "('o, 'a, 'r) her_buffer \<Rightarrow> nat \<Rightarrow> (nat \<Rightarrow> nat) \<Rightarrow> error + nat list" where
  "sample_batch_inds b batch_size gen =
     (case upper_bound b of
        Inl e \<Rightarrow> Inl e
      | Inr ub \<Rightarrow> np_random_randint ub batch_size gen)"

definition sample ::
  "('o, 'x, 'g, 'r) goal_env \<Rightarrow> ('o, 'a, 'r) her_buffer \<Rightarrow> nat \<Rightarrow>
     ('o, 'r) vec_normalize option \<Rightarrow> (nat \<Rightarrow> nat) \<Rightarrow> (nat \<Rightarrow> real) \<Rightarrow>
     error + ('o, 'a, 'r) ReplayBufferSamples" where
  "sample env b batch_size vn gen us =
     (case sample_batch_inds b batch_size gen of
        Inl e \<Rightarrow> Inl e
      | Inr batch_inds \<Rightarrow> get_samples env b batch_inds vn us)"

section \<open>Notions used to state the properties\<close>

text \<open>
  A flat buffer is well shaped when its five arrays have \<open>buffer_size\<close> slots and the
  write position is one of them, as the constructor leaves it for a positive size.
\<close>

definition flat_wf :: "('o, 'a, 'r) her_buffer \<Rightarrow> bool" where
  "flat_wf b \<longleftrightarrow>
     length (observations b) = buffer_size b \<and> length (next_observations b) = buffer_size b \<and>
     length (actions b) = buffer_size b \<and> length (rewards b) = buffer_size b \<and>
     length (dones b) = buffer_size b \<and> pos b < buffer_size b"

text \<open>The transition held by slot \<open>i\<close> of the flat layout.\<close>

definition flat_slot :: "('o, 'a, 'r) her_buffer \<Rightarrow> nat \<Rightarrow> ('o, 'a, 'r) transition" where
  "flat_slot b i =
     (observations b ! i, next_observations b ! i, actions b ! i, rewards b ! i, dones b ! i)"

text \<open>
  What the slice assignment \<^verbatim>\<open>row[:n] = vals\<close> leaves in the slice: \<open>vals\<close>, or its only
  entry \<open>n\<close> times.
\<close>

definition broadcast_to :: "nat \<Rightarrow> 'v list \<Rightarrow> 'v list" where
  "broadcast_to n vals = (if length vals = n then vals else replicate n (hd vals))"

text \<open>
  Slot \<open>i\<close> of the per-episode layout holds the episode \<open>ep\<close>: its length is recorded, and
  the leading entries of the four rows are the episode's.
\<close>

definition episode_slot_holds ::
  "('o, 'a, 'r) her_buffer \<Rightarrow> nat \<Rightarrow> ('o, 'a, 'r) episode \<Rightarrow> bool" where
  "episode_slot_holds b i ep \<longleftrightarrow>
     (let n = length (rows (ep_obs ep)) in
      n_episode_steps b ! i = n \<and>
      take (n + 1) (ep_observations b ! i) = rows (ep_obs ep) @ [last (rows (ep_next_obs ep))] \<and>
      take n (ep_actions b ! i) = broadcast_to n (ep_action ep) \<and>
      take n (ep_rewards b ! i) = broadcast_to n (ep_reward ep) \<and>
      take n (ep_dones b ! i) = broadcast_to n (ep_done ep))"

text \<open>
  The writes of an eager flush in their order: each transition of the episode, followed
  by its copies relabelled with the goals sampled for it.
\<close>

fun eager_writes ::
  "('o, 'x, 'g, 'r) goal_env \<Rightarrow> ('o, 'a, 'r) transition list \<Rightarrow> 'g list list \<Rightarrow>
     ('o, 'a, 'r) transition list" where
  "eager_writes env (transition # rest) (goals # gss) =
     transition # map (relabel env transition) goals @ eager_writes env rest gss"
| "eager_writes env _ _ = []"

text \<open>
  A small environment for the examples: an observation is a number of two digits, the
  achieved goal its tens and the desired goal its units; the reward is 0 when the goal
  is reached and -1 otherwise.
\<close>

definition digit_env :: "(nat, unit, nat, int) goal_env" where
  "digit_env =
     \<lparr> convert_obs_to_dict =
         (\<lambda>ob. \<lparr> observation = (), achieved_goal = ob div 10, desired_goal = ob mod 10 \<rparr>),
       convert_dict_to_obs = (\<lambda>d. achieved_goal d * 10 + desired_goal d),
       compute_reward = (\<lambda>achieved desired. if achieved = desired then 0 else - 1) \<rparr>"

text \<open>Buffers as the constructor returns them, for the examples.\<close>

definition new_buffer :: "nat \<Rightarrow> nat \<Rightarrow> bool \<Rightarrow> string \<Rightarrow> nat \<Rightarrow> (nat, nat, int) her_buffer" where
  "new_buffer sz max_len her_while_sampling strategy n_goal =
     projr (init sz [1] max_len 1 her_while_sampling strategy n_goal)"

text \<open>
  A per-episode buffer is well shaped when its arrays have \<open>buffer_size div max_episode_len\<close>
  slots, the rows of a slot have \<open>max_episode_len\<close> entries (one more for the
  observations) and the write position is one of the slots.
\<close>

definition ep_wf :: "('o, 'a, 'r) her_buffer \<Rightarrow> bool" where
  "ep_wf b \<longleftrightarrow>
     0 < max_episode_len b \<and>
     length (ep_observations b) = buffer_size b div max_episode_len b \<and>
     length (ep_actions b) = buffer_size b div max_episode_len b \<and>
     length (ep_rewards b) = buffer_size b div max_episode_len b \<and>
     length (ep_dones b) = buffer_size b div max_episode_len b \<and>
     length (n_episode_steps b) = buffer_size b div max_episode_len b \<and>
     pos b < buffer_size b div max_episode_len b \<and>
     (\<forall>row \<in> set (ep_observations b). length row = max_episode_len b + 1) \<and>
     (\<forall>row \<in> set (ep_actions b). length row = max_episode_len b) \<and>
     (\<forall>row \<in> set (ep_rewards b). length row = max_episode_len b) \<and>
     (\<forall>row \<in> set (ep_dones b). length row = max_episode_len b)"

text \<open>
  An episode of three steps towards the goal 2, and whole-episode arrays of two steps
  starting at the observation \<open>x\<close>, for the examples.
\<close>

definition demo_steps :: "(nat, nat, int) transition list" where
  "demo_steps = [(12, 32, 7, - 1, False), (32, 52, 8, - 1, False), (52, 72, 9, - 1, True)]"

definition demo_episode :: "nat \<Rightarrow> (nat, nat, int) episode" where
  "demo_episode x =
     \<lparr> ep_obs = NDArray 3 [x, x + 20], ep_next_obs = NDArray 3 [x + 20, x + 40],
       ep_action = [7, 8], ep_reward = [- 1, - 1], ep_done = [False, True] \<rparr>"

text \<open>
  Two buffers agree on what a write never touches: the configuration and the episode
  accumulator.
\<close>

definition same_frame :: "('o, 'a, 'r) her_buffer \<Rightarrow> ('o, 'a, 'r) her_buffer \<Rightarrow> bool" where
  "same_frame b b' \<longleftrightarrow>
     buffer_size b' = buffer_size b \<and> max_episode_len b' = max_episode_len b \<and>
     add_her_while_sampling b' = add_her_while_sampling b \<and>
     goal_selection_strategy b' = goal_selection_strategy b \<and>
     n_sampled_goal b' = n_sampled_goal b \<and> obs_shape b' = obs_shape b \<and>
     episode_transitions b' = episode_transitions b"

text \<open>
  \<open>g\<close> is the achieved goal of the observation of a transition of the episode that the
  strategy of the buffer may select for the transition at \<open>idx\<close>: a later one for
  \<open>FUTURE\<close>, the last one for \<open>FINAL\<close>.
\<close>

definition goal_from ::
  "('o, 'x, 'g, 'r) goal_env \<Rightarrow> ('o, 'a, 'r) her_buffer \<Rightarrow> ('o, 'a, 'r) transition list \<Rightarrow>
     nat \<Rightarrow> 'g \<Rightarrow> bool" where
  "goal_from env b episode idx g \<longleftrightarrow>
     (\<exists>s < length episode.
        g = achieved_goal (convert_obs_to_dict env (fst (episode ! s))) \<and>
        (goal_selection_strategy b = FUTURE \<longrightarrow> idx < s) \<and>
        (goal_selection_strategy b = FINAL \<longrightarrow> s = length episode - 1))"

text \<open>
  The goals sampled for the transition at index \<open>i\<close> of the episode in the accumulator:
  none for the last transition under \<open>FUTURE\<close>, otherwise \<open>n_sampled_goal\<close> goals the
  strategy may select.
\<close>

definition relabels_at ::
  "('o, 'x, 'g, 'r) goal_env \<Rightarrow> ('o, 'a, 'r) her_buffer \<Rightarrow> nat \<Rightarrow> 'g list \<Rightarrow> bool" where
  "relabels_at env b i goals \<longleftrightarrow>
     (if goal_selection_strategy b = FUTURE \<and> i + 1 = length (episode_transitions b)
      then goals = []
      else length goals = n_sampled_goal b \<and>
           (\<forall>g \<in> set goals. goal_from env b (episode_transitions b) i g))"

text \<open>The number of writes of an eager flush of the last \<open>m\<close> transitions of an episode.\<close>

definition eager_count :: "('o, 'a, 'r) her_buffer \<Rightarrow> nat \<Rightarrow> nat" where
  "eager_count b m =
     (if goal_selection_strategy b = FUTURE then m + (m - 1) * n_sampled_goal b
      else m * (1 + n_sampled_goal b))"

text \<open>The calls of \<^verbatim>\<open>add\<close> for the steps of a run, in order, up to the first exception.\<close>

fun add_all ::
  "('o, 'x, 'g, 'r) goal_env \<Rightarrow> (nat \<Rightarrow> nat) \<Rightarrow> ('o, 'a, 'r) transition list \<Rightarrow>
     ('o, 'a, 'r) her_buffer \<Rightarrow> error option \<times> ('o, 'a, 'r) her_buffer \<times> (nat \<Rightarrow> nat)" where
  "add_all env gen [] b = (None, b, gen)"
| "add_all env gen (transition # rest) b =
     (case add env gen transition b of
        (Some e, b', gen') \<Rightarrow> (Some e, b', gen')
      | (None, b', gen') \<Rightarrow> add_all env gen' rest b')"

text \<open>The next observation, the reward and the done flag of a transition.\<close>

definition next_obs_of :: "('o, 'a, 'r) transition \<Rightarrow> 'o" where
  "next_obs_of transition = (case transition of (obs, next_obs, action, reward, done) \<Rightarrow> next_obs)"

definition reward_of :: "('o, 'a, 'r) transition \<Rightarrow> 'r" where
  "reward_of transition = (case transition of (obs, next_obs, action, reward, done) \<Rightarrow> reward)"

definition done_of :: "('o, 'a, 'r) transition \<Rightarrow> bool" where
  "done_of transition = (case transition of (obs, next_obs, action, reward, done) \<Rightarrow> done)"

text \<open>
  A per-episode buffer of two slots that has received the three steps of \<open>demo_steps\<close>,
  and the flat buffer whose accumulator holds them, for the examples.
\<close>

definition lazy_demo :: "(nat, nat, int) her_buffer" where
  "lazy_demo = fst (snd (add_all digit_env (\<lambda>k. k) demo_steps (new_buffer 6 3 True ''future'' 4)))"

definition eager_demo :: "string \<Rightarrow> nat \<Rightarrow> (nat, nat, int) her_buffer" where
  "eager_demo strategy n_goal =
     (new_buffer 12 5 False strategy n_goal)\<lparr>episode_transitions := demo_steps\<rparr>"

text \<open>
  A per-episode buffer that has received one episode of a single step, for the examples.
\<close>

definition lazy_one_step :: "(nat, nat, int) her_buffer" where
  "lazy_one_step =
     fst (snd (add digit_env (\<lambda>k. k) (52, 72, 9, - 1, True) (new_buffer 6 3 True ''future'' 4)))"

section \<open>Properties\<close>

subsection \<open>Malformed episodes\<close>

text \<open>
  C7. In the per-episode layout, a write whose observation array has fewer than two
  dimensions raises the exception "obs needs to be an episode of observations", and the
  buffer it leaves is the buffer it was given: position, fullness flag, recorded episode
  lengths and every slot are as before.
\<close>

theorem malformed_episode_rejected:
  "ndim (ep_obs ep) < 2 \<Longrightarrow> add_transition_episode ep b = (Some EpisodeException, b)"
  by (simp add: add_transition_episode_def)

theorem malformed_episode_rejected_witness:
  "ndim (ep_obs \<lparr> ep_obs = NDArray 1 [12, 32], ep_next_obs = NDArray 1 [32, 52],
                  ep_action = [7, 8], ep_reward = [- 1, - 1], ep_done = [False, True] \<rparr>) < 2
   \<and> add_transition_episode
       \<lparr> ep_obs = NDArray 1 [12, 32], ep_next_obs = NDArray 1 [32, 52],
         ep_action = [7, 8], ep_reward = [- 1, - 1], ep_done = [False, True] \<rparr>
       (new_buffer 4 2 True ''future'' 4)
     = (Some EpisodeException, new_buffer 4 2 True ''future'' 4)"
  using malformed_episode_rejected
    [of "\<lparr> ep_obs = NDArray 1 [12, 32], ep_next_obs = NDArray 1 [32, 52],
           ep_action = [7, 8], ep_reward = [- 1, - 1], ep_done = [False, True] \<rparr>"
        "new_buffer 4 2 True ''future'' 4"]
  by simp

subsection \<open>Auxiliary facts about the writes\<close>

lemma exec_append:
  "exec (cs @ ds) s = (case exec cs s of (Some e, s') \<Rightarrow> (Some e, s') | (None, s') \<Rightarrow> exec ds s')"
  by (induction cs arbitrary: s) (auto split: prod.splits option.splits)

lemma exec_single: "exec [c] s = c s"
  by (auto split: prod.splits option.splits)

lemma mod_distinct:
  fixes w k c :: nat
  assumes "w < k" "k < w + c"
  shows "w mod c \<noteq> k mod c"
proof
  assume "w mod c = k mod c"
  then have "c dvd k - w" using assms(1)
    by (metis mod_eq_dvd_iff_nat less_imp_le_nat)
  moreover have "0 < k - w" "k - w < c" using assms by auto
  ultimately show False by (simp add: dvd_imp_le leD)
qed

lemma flat_step:
  assumes "flat_wf b"
  shows "add_transition_flat (ob, nob, ac, rw, dn) b =
     (None, b\<lparr>observations := (observations b)[pos b := ob],
              next_observations := (next_observations b)[pos b := nob],
              actions := (actions b)[pos b := ac],
              rewards := (rewards b)[pos b := rw],
              dones := (dones b)[pos b := dn],
              pos := (if pos b + 1 = buffer_size b then 0 else pos b + 1),
              full := (full b \<or> pos b + 1 = buffer_size b)\<rparr>)"
  using assms
  by (simp add: flat_wf_def add_transition_flat_def store_observations_def store_next_observations_def
      store_actions_def store_rewards_def store_dones_def incr_pos_def wrap_flat_def set_slot_def)

lemma flat_step_props:
  assumes "flat_wf b" "add_transition_flat tr b = (e, b')"
  shows "e = None" "flat_wf b'" "buffer_size b' = buffer_size b"
    "pos b' = Suc (pos b) mod buffer_size b"
    "full b' = (full b \<or> Suc (pos b) = buffer_size b)"
    "\<And>i. i < buffer_size b \<Longrightarrow> flat_slot b' i = (if i = pos b then tr else flat_slot b i)"
    "episode_transitions b' = episode_transitions b"
    "goal_selection_strategy b' = goal_selection_strategy b"
    "n_sampled_goal b' = n_sampled_goal b"
    "add_her_while_sampling b' = add_her_while_sampling b"
proof -
  obtain ob nob ac rw dn where tr: "tr = (ob, nob, ac, rw, dn)" by (cases tr) auto
  note st = flat_step[OF assms(1), of ob nob ac rw dn]
  have eq: "e = None" "b' = b\<lparr>observations := (observations b)[pos b := ob],
              next_observations := (next_observations b)[pos b := nob],
              actions := (actions b)[pos b := ac],
              rewards := (rewards b)[pos b := rw],
              dones := (dones b)[pos b := dn],
              pos := (if pos b + 1 = buffer_size b then 0 else pos b + 1),
              full := (full b \<or> pos b + 1 = buffer_size b)\<rparr>"
    using st assms(2) tr by auto
  show "e = None" by fact
  show "flat_wf b'" using assms(1) by (auto simp: eq flat_wf_def)
  show "buffer_size b' = buffer_size b" by (simp add: eq)
  show "pos b' = Suc (pos b) mod buffer_size b" using assms(1) by (auto simp: eq flat_wf_def)
  show "full b' = (full b \<or> Suc (pos b) = buffer_size b)" by (simp add: eq)
  show "\<And>i. i < buffer_size b \<Longrightarrow> flat_slot b' i = (if i = pos b then tr else flat_slot b i)"
    using assms(1) by (auto simp: eq flat_wf_def flat_slot_def tr)
  show "episode_transitions b' = episode_transitions b" by (simp add: eq)
  show "goal_selection_strategy b' = goal_selection_strategy b" by (simp add: eq)
  show "n_sampled_goal b' = n_sampled_goal b" by (simp add: eq)
  show "add_her_while_sampling b' = add_her_while_sampling b" by (simp add: eq)
qed

lemma flat_ring:
  assumes "flat_wf b0" "pos b0 = 0" "\<not> full b0"
  shows "\<exists>b. exec (map add_transition_flat ws) b0 = (None, b) \<and> flat_wf b \<and>
           buffer_size b = buffer_size b0 \<and>
           pos b = length ws mod buffer_size b0 \<and>
           full b = (buffer_size b0 \<le> length ws) \<and>
           (\<forall>w < length ws. length ws \<le> w + buffer_size b0 \<longrightarrow>
               flat_slot b (w mod buffer_size b0) = ws ! w)"
proof (induction ws rule: rev_induct)
  case Nil
  have "0 < buffer_size b0" using assms(1) unfolding flat_wf_def by linarith
  then show ?case using assms by simp
next
  case (snoc x ws)
  let ?C = "buffer_size b0"
  from snoc obtain b1 where b1: "exec (map add_transition_flat ws) b0 = (None, b1)" "flat_wf b1"
    "buffer_size b1 = ?C" "pos b1 = length ws mod ?C" "full b1 = (?C \<le> length ws)"
    "\<forall>w < length ws. length ws \<le> w + ?C \<longrightarrow> flat_slot b1 (w mod ?C) = ws ! w"
    by blast
  obtain e b2 where step: "add_transition_flat x b1 = (e, b2)" by (cases "add_transition_flat x b1")
  note p = flat_step_props[OF b1(2) step]
  have Cpos: "0 < ?C" using assms(1) by (simp add: flat_wf_def)
  have run: "exec (map add_transition_flat (ws @ [x])) b0 = (None, b2)"
    using b1(1) step p(1) by (simp add: exec_append exec_single)
  have pos2: "pos b2 = length (ws @ [x]) mod ?C"
    using p(4) b1(3,4) by (simp add: mod_Suc_eq)
  have full2: "full b2 = (?C \<le> length (ws @ [x]))"
  proof (cases "?C \<le> length ws")
    case True
    then show ?thesis using p(5) b1(5) by simp
  next
    case False
    then have "pos b1 = length ws" using b1(4) by simp
    then show ?thesis using p(5) b1(3,5) False by auto
  qed
  have slots: "flat_slot b2 (w mod ?C) = (ws @ [x]) ! w"
    if "w < length (ws @ [x])" "length (ws @ [x]) \<le> w + ?C" for w
  proof (cases "w = length ws")
    case True
    then show ?thesis using p(6)[of "w mod ?C"] b1(3,4) Cpos by simp
  next
    case False
    then have wl: "w < length ws" using that(1) by simp
    have "length ws < w + ?C" using that(2) by simp
    then have ne: "w mod ?C \<noteq> length ws mod ?C" using mod_distinct[OF wl] by blast
    have "flat_slot b1 (w mod ?C) = ws ! w" using b1(6) wl that(2) by simp
    then show ?thesis using p(6)[of "w mod ?C"] b1(3,4) Cpos ne wl by (simp add: nth_append)
  qed
  have slots': "\<forall>w < length (ws @ [x]). length (ws @ [x]) \<le> w + ?C \<longrightarrow>
               flat_slot b2 (w mod ?C) = (ws @ [x]) ! w"
    by (intro allI impI) (rule slots)
  have "exec (map add_transition_flat (ws @ [x])) b0 = (None, b2) \<and> flat_wf b2 \<and>
           buffer_size b2 = ?C \<and> pos b2 = length (ws @ [x]) mod ?C \<and>
           full b2 = (?C \<le> length (ws @ [x])) \<and>
           (\<forall>w < length (ws @ [x]). length (ws @ [x]) \<le> w + ?C \<longrightarrow>
               flat_slot b2 (w mod ?C) = (ws @ [x]) ! w)"
    using run p(2) p(3) b1(3) pos2 full2 slots' by (intro conjI) simp_all
  then show ?case by (rule exI)
qed

lemma length_broadcast_to: "length (broadcast_to n vals) = n"
  by (simp add: broadcast_to_def)

lemma assign_rows_Some:
  assumes "assign_rows row n vals = Some row'"
  shows "row' = broadcast_to (min n (length row)) vals @ drop (min n (length row)) row"
    and "length row' = length row"
    and "length vals = min n (length row) \<or> length vals = 1"
  using assms
  by (auto simp: assign_rows_def broadcast_to_def Let_def split: if_splits)

lemma assign_slot_rows_Inr:
  assumes "assign_slot_rows arr p n vals = Inr arr'"
  shows "p < length arr"
    and "arr' = arr[p := broadcast_to (min n (length (arr ! p))) vals
                          @ drop (min n (length (arr ! p))) (arr ! p)]"
    and "length (arr' ! p) = length (arr ! p)"
    and "length vals = min n (length (arr ! p)) \<or> length vals = 1"
proof -
  from assms have p: "p < length arr"
    by (simp add: assign_slot_rows_def split: if_splits)
  from assms p obtain row where row: "assign_rows (arr ! p) n vals = Some row" "arr' = arr[p := row]"
    by (auto simp: assign_slot_rows_def split: option.splits)
  show "p < length arr" by fact
  show "arr' = arr[p := broadcast_to (min n (length (arr ! p))) vals
                          @ drop (min n (length (arr ! p))) (arr ! p)]"
    using row assign_rows_Some(1)[OF row(1)] by simp
  show "length (arr' ! p) = length (arr ! p)"
    using row p assign_rows_Some(2)[OF row(1)] by simp
  show "length vals = min n (length (arr ! p)) \<or> length vals = 1"
    using assign_rows_Some(3)[OF row(1)] .
qed

lemma exec_Cons_None:
  assumes "exec (c # cs) s = (None, s')"
  obtains s1 where "c s = (None, s1)" "exec cs s1 = (None, s')"
  using assms by (auto split: prod.splits option.splits)

lemma episode_step_chain:
  assumes "add_transition_episode ep b = (None, b')"
  obtains a1 a2 a3 a4 ns where
    "2 \<le> ndim (ep_obs ep)"
    "obs_with_last (ep_obs ep) (ep_next_obs ep) = Inr (rows (ep_obs ep) @ [last (rows (ep_next_obs ep))])"
    "assign_slot_rows (ep_observations b) (pos b) (length (rows (ep_obs ep)) + 1)
        (rows (ep_obs ep) @ [last (rows (ep_next_obs ep))]) = Inr a1"
    "assign_slot_rows (ep_actions b) (pos b) (length (rows (ep_obs ep))) (ep_action ep) = Inr a2"
    "assign_slot_rows (ep_rewards b) (pos b) (length (rows (ep_obs ep))) (ep_reward ep) = Inr a3"
    "assign_slot_rows (ep_dones b) (pos b) (length (rows (ep_obs ep))) (ep_done ep) = Inr a4"
    "set_slot (n_episode_steps b) (pos b) (length (rows (ep_obs ep))) = Some ns"
    "max_episode_len b \<noteq> 0"
    "b' = b\<lparr>ep_observations := a1, ep_actions := a2, ep_rewards := a3, ep_dones := a4,
            n_episode_steps := ns,
            pos := (if pos b + 1 = buffer_size b div max_episode_len b then 0 else pos b + 1),
            full := (full b \<or> pos b + 1 = buffer_size b div max_episode_len b)\<rparr>"
proof -
  let ?n = "length (rows (ep_obs ep))"
  from assms have d: "2 \<le> ndim (ep_obs ep)"
    by (simp add: add_transition_episode_def split: if_splits)
  with assms have ex: "exec [store_ep_observations ?n (ep_obs ep) (ep_next_obs ep),
               store_ep_actions ?n (ep_action ep),
               store_ep_rewards ?n (ep_reward ep),
               store_ep_dones ?n (ep_done ep),
               store_n_episode_steps ?n,
               incr_pos, wrap_episode] b = (None, b')"
    by (simp add: add_transition_episode_def Let_def)
  from ex obtain b1 where s1: "store_ep_observations ?n (ep_obs ep) (ep_next_obs ep) b = (None, b1)"
    and r1: "exec [store_ep_actions ?n (ep_action ep),
               store_ep_rewards ?n (ep_reward ep),
               store_ep_dones ?n (ep_done ep),
               store_n_episode_steps ?n,
               incr_pos, wrap_episode] b1 = (None, b')"
    by (rule exec_Cons_None)
  from r1 obtain b2 where s2: "store_ep_actions ?n (ep_action ep) b1 = (None, b2)"
    and r2: "exec [store_ep_rewards ?n (ep_reward ep),
               store_ep_dones ?n (ep_done ep),
               store_n_episode_steps ?n,
               incr_pos, wrap_episode] b2 = (None, b')"
    by (rule exec_Cons_None)
  from r2 obtain b3 where s3: "store_ep_rewards ?n (ep_reward ep) b2 = (None, b3)"
    and r3: "exec [store_ep_dones ?n (ep_done ep),
               store_n_episode_steps ?n,
               incr_pos, wrap_episode] b3 = (None, b')"
    by (rule exec_Cons_None)
  from r3 obtain b4 where s4: "store_ep_dones ?n (ep_done ep) b3 = (None, b4)"
    and r4: "exec [store_n_episode_steps ?n, incr_pos, wrap_episode] b4 = (None, b')"
    by (rule exec_Cons_None)
  from r4 obtain b5 where s5: "store_n_episode_steps ?n b4 = (None, b5)"
    and r5: "exec [incr_pos, wrap_episode] b5 = (None, b')"
    by (rule exec_Cons_None)
  from r5 obtain b6 where s6: "incr_pos b5 = (None, b6)"
    and r6: "exec [wrap_episode] b6 = (None, b')"
    by (rule exec_Cons_None)
  from r6 have s7: "wrap_episode b6 = (None, b')"
    by (auto split: prod.splits option.splits)
  from s1 have o: "obs_with_last (ep_obs ep) (ep_next_obs ep) = Inr (rows (ep_obs ep) @ [last (rows (ep_next_obs ep))])"
    by (auto simp: store_ep_observations_def obs_with_last_def split: sum.splits if_splits)
  from s1 o obtain a1 where a1: "assign_slot_rows (ep_observations b) (pos b) (?n + 1)
        (rows (ep_obs ep) @ [last (rows (ep_next_obs ep))]) = Inr a1" "b1 = b\<lparr>ep_observations := a1\<rparr>"
    by (auto simp: store_ep_observations_def split: sum.splits)
  from s2 obtain a2 where a2: "assign_slot_rows (ep_actions b1) (pos b1) ?n (ep_action ep) = Inr a2"
     "b2 = b1\<lparr>ep_actions := a2\<rparr>"
    by (auto simp: store_ep_actions_def split: sum.splits)
  from s3 obtain a3 where a3: "assign_slot_rows (ep_rewards b2) (pos b2) ?n (ep_reward ep) = Inr a3"
     "b3 = b2\<lparr>ep_rewards := a3\<rparr>"
    by (auto simp: store_ep_rewards_def split: sum.splits)
  from s4 obtain a4 where a4: "assign_slot_rows (ep_dones b3) (pos b3) ?n (ep_done ep) = Inr a4"
     "b4 = b3\<lparr>ep_dones := a4\<rparr>"
    by (auto simp: store_ep_dones_def split: sum.splits)
  from s5 obtain ns where ns: "set_slot (n_episode_steps b4) (pos b4) ?n = Some ns"
     "b5 = b4\<lparr>n_episode_steps := ns\<rparr>"
    by (auto simp: store_n_episode_steps_def split: option.splits)
  from s6 have b6: "b6 = b5\<lparr>pos := pos b5 + 1\<rparr>"
    by (simp add: incr_pos_def)
  from s7 have m: "max_episode_len b6 \<noteq> 0"
    and b': "b' = (if pos b6 = buffer_size b6 div max_episode_len b6
                  then b6\<lparr>full := True, pos := 0\<rparr> else b6)"
    by (auto simp: wrap_episode_def split: if_splits)
  show ?thesis
  proof (rule that[of a1 a2 a3 a4 ns])
    show "2 \<le> ndim (ep_obs ep)" by fact
    show "obs_with_last (ep_obs ep) (ep_next_obs ep) = Inr (rows (ep_obs ep) @ [last (rows (ep_next_obs ep))])" by fact
    show "assign_slot_rows (ep_observations b) (pos b) (?n + 1)
        (rows (ep_obs ep) @ [last (rows (ep_next_obs ep))]) = Inr a1" by fact
    show "assign_slot_rows (ep_actions b) (pos b) ?n (ep_action ep) = Inr a2"
      using a2(1) a1(2) by simp
    show "assign_slot_rows (ep_rewards b) (pos b) ?n (ep_reward ep) = Inr a3"
      using a3(1) a2(2) a1(2) by simp
    show "assign_slot_rows (ep_dones b) (pos b) ?n (ep_done ep) = Inr a4"
      using a4(1) a3(2) a2(2) a1(2) by simp
    show "set_slot (n_episode_steps b) (pos b) ?n = Some ns"
      using ns(1) a4(2) a3(2) a2(2) a1(2) by simp
    show "max_episode_len b \<noteq> 0"
      using m b6 ns(2) a4(2) a3(2) a2(2) a1(2) by simp
    show "b' = b\<lparr>ep_observations := a1, ep_actions := a2, ep_rewards := a3, ep_dones := a4,
            n_episode_steps := ns,
            pos := (if pos b + 1 = buffer_size b div max_episode_len b then 0 else pos b + 1),
            full := (full b \<or> pos b + 1 = buffer_size b div max_episode_len b)\<rparr>"
      unfolding b' b6 ns(2) a4(2) a3(2) a2(2) a1(2) by simp
  qed
qed

lemma rows_update_length:
  assumes "\<forall>row \<in> set arr. length row = n" "length r = n"
  shows "\<forall>row \<in> set (arr[p := r]). length row = n"
  using assms set_update_subset_insert[of arr p r] by auto

lemma take_broadcast_prefix:
  "take n (broadcast_to n vals @ rest) = broadcast_to n vals"
  by (simp add: length_broadcast_to)

lemma episode_step_props:
  assumes wf: "ep_wf b" and step: "add_transition_episode ep b = (None, b')"
  shows "ep_wf b'"
    and "buffer_size b' = buffer_size b"
    and "max_episode_len b' = max_episode_len b"
    and "pos b' = Suc (pos b) mod (buffer_size b div max_episode_len b)"
    and "full b' = (full b \<or> Suc (pos b) = buffer_size b div max_episode_len b)"
    and "episode_slot_holds b' (pos b) ep"
    and "\<And>i e. i \<noteq> pos b \<Longrightarrow> episode_slot_holds b' i e = episode_slot_holds b i e"
proof -
  let ?n = "length (rows (ep_obs ep))"
  let ?vals = "rows (ep_obs ep) @ [last (rows (ep_next_obs ep))]"
  let ?C = "buffer_size b div max_episode_len b"
  let ?m = "max_episode_len b"
  from step obtain a1 a2 a3 a4 ns where
    c1: "assign_slot_rows (ep_observations b) (pos b) (?n + 1) ?vals = Inr a1" and
    c2: "assign_slot_rows (ep_actions b) (pos b) ?n (ep_action ep) = Inr a2" and
    c3: "assign_slot_rows (ep_rewards b) (pos b) ?n (ep_reward ep) = Inr a3" and
    c4: "assign_slot_rows (ep_dones b) (pos b) ?n (ep_done ep) = Inr a4" and
    c5: "set_slot (n_episode_steps b) (pos b) ?n = Some ns" and
    b': "b' = b\<lparr>ep_observations := a1, ep_actions := a2, ep_rewards := a3, ep_dones := a4,
            n_episode_steps := ns,
            pos := (if pos b + 1 = ?C then 0 else pos b + 1),
            full := (full b \<or> pos b + 1 = ?C)\<rparr>"
    by (rule episode_step_chain)
  note o = assign_slot_rows_Inr[OF c1]
  note a = assign_slot_rows_Inr[OF c2]
  note r = assign_slot_rows_Inr[OF c3]
  note d = assign_slot_rows_Inr[OF c4]
  from c5 have ns: "ns = (n_episode_steps b)[pos b := ?n]" "pos b < length (n_episode_steps b)"
    by (auto simp: set_slot_def split: if_splits)
  have p: "pos b < ?C" using wf by (simp add: ep_wf_def)
  have lo: "length (ep_observations b ! pos b) = ?m + 1"
    using wf o(1) by (simp add: ep_wf_def)
  have la: "length (ep_actions b ! pos b) = ?m"
    using wf a(1) by (simp add: ep_wf_def)
  have lr: "length (ep_rewards b ! pos b) = ?m"
    using wf r(1) by (simp add: ep_wf_def)
  have ld: "length (ep_dones b ! pos b) = ?m"
    using wf d(1) by (simp add: ep_wf_def)
  have nm: "?n \<le> ?m" using o(4) lo by auto
  have mo: "min (?n + 1) (length (ep_observations b ! pos b)) = ?n + 1" using nm lo by simp
  have ma: "min ?n (length (ep_actions b ! pos b)) = ?n" using nm la by simp
  have mr: "min ?n (length (ep_rewards b ! pos b)) = ?n" using nm lr by simp
  have md: "min ?n (length (ep_dones b ! pos b)) = ?n" using nm ld by simp
  have bo: "broadcast_to (?n + 1) ?vals = ?vals" by (simp add: broadcast_to_def)
  have a1p: "a1 ! pos b = ?vals @ drop (?n + 1) (ep_observations b ! pos b)"
    using o(1,2) mo bo by simp
  have a2p: "a2 ! pos b = broadcast_to ?n (ep_action ep) @ drop ?n (ep_actions b ! pos b)"
    using a(1,2) ma by simp
  have a3p: "a3 ! pos b = broadcast_to ?n (ep_reward ep) @ drop ?n (ep_rewards b ! pos b)"
    using r(1,2) mr by simp
  have a4p: "a4 ! pos b = broadcast_to ?n (ep_done ep) @ drop ?n (ep_dones b ! pos b)"
    using d(1,2) md by simp
  have len1: "length a1 = length (ep_observations b)" using o(2) by simp
  have len2: "length a2 = length (ep_actions b)" using a(2) by simp
  have len3: "length a3 = length (ep_rewards b)" using r(2) by simp
  have len4: "length a4 = length (ep_dones b)" using d(2) by simp
  have rows1: "\<forall>row \<in> set a1. length row = ?m + 1"
  proof -
    have "\<forall>row \<in> set (ep_observations b). length row = ?m + 1" using wf by (simp add: ep_wf_def)
    moreover have "length (a1 ! pos b) = ?m + 1" using o(3) lo by simp
    moreover have "a1 = (ep_observations b)[pos b := a1 ! pos b]" using o(1,2) by simp
    ultimately show ?thesis using rows_update_length by metis
  qed
  have rows2: "\<forall>row \<in> set a2. length row = ?m"
  proof -
    have "\<forall>row \<in> set (ep_actions b). length row = ?m" using wf by (simp add: ep_wf_def)
    moreover have "length (a2 ! pos b) = ?m" using a(3) la by simp
    moreover have "a2 = (ep_actions b)[pos b := a2 ! pos b]" using a(1,2) by simp
    ultimately show ?thesis using rows_update_length by metis
  qed
  have rows3: "\<forall>row \<in> set a3. length row = ?m"
  proof -
    have "\<forall>row \<in> set (ep_rewards b). length row = ?m" using wf by (simp add: ep_wf_def)
    moreover have "length (a3 ! pos b) = ?m" using r(3) lr by simp
    moreover have "a3 = (ep_rewards b)[pos b := a3 ! pos b]" using r(1,2) by simp
    ultimately show ?thesis using rows_update_length by metis
  qed
  have rows4: "\<forall>row \<in> set a4. length row = ?m"
  proof -
    have "\<forall>row \<in> set (ep_dones b). length row = ?m" using wf by (simp add: ep_wf_def)
    moreover have "length (a4 ! pos b) = ?m" using d(3) ld by simp
    moreover have "a4 = (ep_dones b)[pos b := a4 ! pos b]" using d(1,2) by simp
    ultimately show ?thesis using rows_update_length by metis
  qed
  have sel: "buffer_size b' = buffer_size b" "max_episode_len b' = ?m"
    "ep_observations b' = a1" "ep_actions b' = a2" "ep_rewards b' = a3" "ep_dones b' = a4"
    "n_episode_steps b' = ns" "pos b' = (if pos b + 1 = ?C then 0 else pos b + 1)"
    "full b' = (full b \<or> pos b + 1 = ?C)"
    by (simp_all add: b')
  show "buffer_size b' = buffer_size b" by (rule sel)
  show "max_episode_len b' = max_episode_len b" by (rule sel)
  show pos': "pos b' = Suc (pos b) mod ?C" using p sel(8) by auto
  show "full b' = (full b \<or> Suc (pos b) = ?C)" using sel(9) by simp
  have "pos b' < ?C" using pos' p by simp
  then show "ep_wf b'"
    unfolding ep_wf_def sel using wf rows1 rows2 rows3 rows4 len1 len2 len3 len4 ns(1)
    by (simp add: ep_wf_def)
  show "episode_slot_holds b' (pos b) ep"
    unfolding episode_slot_holds_def Let_def sel a1p a2p a3p a4p
    using ns by (simp add: length_broadcast_to)
  show "episode_slot_holds b' i e = episode_slot_holds b i e" if "i \<noteq> pos b" for i e
    unfolding episode_slot_holds_def Let_def sel using that o(2) a(2) r(2) d(2) ns(1) by simp
qed

lemma exec_snoc_None:
  assumes "exec (cs @ [c]) s = (None, s')"
  obtains s1 where "exec cs s = (None, s1)" "c s1 = (None, s')"
  using assms by (auto simp: exec_append exec_single split: prod.splits option.splits)

lemma episode_ring:
  assumes "ep_wf b0" "pos b0 = 0" "\<not> full b0"
  shows "exec (map add_transition_episode eps) b0 = (None, b) \<Longrightarrow>
           ep_wf b \<and> buffer_size b = buffer_size b0 \<and> max_episode_len b = max_episode_len b0 \<and>
           pos b = length eps mod (buffer_size b0 div max_episode_len b0) \<and>
           full b = (buffer_size b0 div max_episode_len b0 \<le> length eps) \<and>
           (\<forall>w < length eps. length eps \<le> w + buffer_size b0 div max_episode_len b0 \<longrightarrow>
               episode_slot_holds b (w mod (buffer_size b0 div max_episode_len b0)) (eps ! w))"
proof (induction eps arbitrary: b rule: rev_induct)
  case Nil
  have "0 < buffer_size b0 div max_episode_len b0" using assms(1) unfolding ep_wf_def by linarith
  then show ?case using assms Nil by simp
next
  case (snoc x eps)
  let ?C = "buffer_size b0 div max_episode_len b0"
  from snoc.prems have "exec (map add_transition_episode eps @ [add_transition_episode x]) b0 = (None, b)"
    by simp
  then obtain b1 where run1: "exec (map add_transition_episode eps) b0 = (None, b1)"
    and step: "add_transition_episode x b1 = (None, b)"
    by (rule exec_snoc_None)
  from snoc.IH[OF run1] have b1: "ep_wf b1" "buffer_size b1 = buffer_size b0"
    "max_episode_len b1 = max_episode_len b0" "pos b1 = length eps mod ?C"
    "full b1 = (?C \<le> length eps)"
    "\<forall>w < length eps. length eps \<le> w + ?C \<longrightarrow> episode_slot_holds b1 (w mod ?C) (eps ! w)"
    by simp_all
  note p = episode_step_props[OF b1(1) step]
  have Cpos: "0 < ?C" using assms(1) unfolding ep_wf_def by linarith
  have pos2: "pos b = length (eps @ [x]) mod ?C"
    using p(4) b1(2,3,4) by (simp add: mod_Suc_eq)
  have full2: "full b = (?C \<le> length (eps @ [x]))"
  proof (cases "?C \<le> length eps")
    case True
    then show ?thesis using p(5) b1(5) by simp
  next
    case False
    then have "pos b1 = length eps" using b1(4) by simp
    then show ?thesis using p(5) b1(2,3,5) False by auto
  qed
  have slots: "episode_slot_holds b (w mod ?C) ((eps @ [x]) ! w)"
    if "w < length (eps @ [x])" "length (eps @ [x]) \<le> w + ?C" for w
  proof (cases "w = length eps")
    case True
    then show ?thesis using p(6) b1(4) by simp
  next
    case False
    then have wl: "w < length eps" using that(1) by simp
    have "length eps < w + ?C" using that(2) by simp
    then have ne: "w mod ?C \<noteq> pos b1" using mod_distinct[OF wl] b1(4) by simp
    have "episode_slot_holds b1 (w mod ?C) (eps ! w)" using b1(6) wl that(2) by simp
    then show ?thesis using p(7)[OF ne] wl by (simp add: nth_append)
  qed
  have slots': "\<forall>w < length (eps @ [x]). length (eps @ [x]) \<le> w + ?C \<longrightarrow>
               episode_slot_holds b (w mod ?C) ((eps @ [x]) ! w)"
    by (intro allI impI) (rule slots)
  show ?case
    using p(1) p(2) p(3) b1(2) b1(3) pos2 full2 slots' by (intro conjI) simp_all
qed

lemma init_flat:
  assumes "init sz shp m k False key n = Inr b0" "0 < sz"
  shows "flat_wf b0" "pos b0 = 0" "\<not> full b0" "buffer_size b0 = sz"
    "\<not> add_her_while_sampling b0"
  using assms
  by (auto simp: init_def flat_wf_def split: if_splits option.splits)

lemma init_episode:
  assumes "init sz shp m k True key n = Inr b0" "0 < sz div m"
  shows "ep_wf b0" "pos b0 = 0" "\<not> full b0" "buffer_size b0 = sz" "max_episode_len b0 = m"
    "add_her_while_sampling b0"
  using assms
  by (auto simp: init_def ep_wf_def split: if_splits option.splits)

subsection \<open>The ring of slots\<close>


subsection \<open>Evaluation of the examples\<close>

lemmas flat_eval = add_transition_flat_def store_observations_def store_next_observations_def
      store_actions_def store_rewards_def store_dones_def incr_pos_def wrap_flat_def set_slot_def

lemmas episode_eval = add_transition_episode_def store_ep_observations_def store_ep_actions_def
      store_ep_rewards_def store_ep_dones_def store_n_episode_steps_def obs_with_last_def
      assign_slot_rows_def assign_rows_def set_slot_def incr_pos_def wrap_episode_def

lemma new_buffer_flat:
  "KEY_TO_GOAL_STRATEGY key = Some s \<Longrightarrow> new_buffer sz m False key n =
     \<lparr> buffer_size = sz, obs_shape = [1], max_episode_len = m,
                  add_her_while_sampling = False,
                  goal_selection_strategy = s, n_sampled_goal = n,
                  pos = 0, full = False, episode_transitions = [],
                  observations = replicate sz 0,
                  next_observations = replicate sz 0,
                  actions = replicate sz 0,
                  rewards = replicate sz 0,
                  dones = replicate sz False,
                  ep_observations = [], ep_actions = [], ep_rewards = [], ep_dones = [],
                  n_episode_steps = [] \<rparr>"
  by (simp add: new_buffer_def init_def)

lemma new_buffer_episode:
  "KEY_TO_GOAL_STRATEGY key = Some s \<Longrightarrow> 0 < m \<Longrightarrow> new_buffer sz m True key n =
     \<lparr> buffer_size = sz, obs_shape = [1], max_episode_len = m,
                  add_her_while_sampling = True,
                  goal_selection_strategy = s, n_sampled_goal = n,
                  pos = 0, full = False, episode_transitions = [],
                  observations = [], next_observations = [], actions = [], rewards = [],
                  dones = [],
                  ep_observations = replicate (sz div m) (replicate (m + 1) 0),
                  ep_actions = replicate (sz div m) (replicate m 0),
                  ep_rewards = replicate (sz div m) (replicate m 0),
                  ep_dones = replicate (sz div m) (replicate m False),
                  n_episode_steps = replicate (sz div m) 0 \<rparr>"
  by (simp add: new_buffer_def init_def)

lemma strategy_keys:
  "KEY_TO_GOAL_STRATEGY ''future'' = Some FUTURE" "KEY_TO_GOAL_STRATEGY ''final'' = Some FINAL"
  "KEY_TO_GOAL_STRATEGY ''episode'' = Some EPISODE" "KEY_TO_GOAL_STRATEGY ''random'' = Some RANDOM"
  by (simp_all add: KEY_TO_GOAL_STRATEGY_def)


subsection \<open>The ring of slots: example and counterexample\<close>



subsection \<open>Auxiliary facts about the frame and the sampled indices\<close>

lemma residue_in_window:
  fixes c k i :: nat
  assumes "0 < c" "c \<le> k" "i < c"
  shows "\<exists>w. w < k \<and> k \<le> w + c \<and> w mod c = i"
proof -
  let ?q = "k - c"
  have split: "?q = c * (?q div c) + ?q mod c" by simp
  have r: "?q mod c < c" using assms(1) by simp
  show ?thesis
  proof (cases "?q mod c \<le> i")
    case True
    let ?w = "c * (?q div c) + i"
    have "?w mod c = i" using assms(3) by simp
    moreover have "?q \<le> ?w" using split True by linarith
    moreover have "?w < ?q + c" using split assms(3) by linarith
    ultimately have "?w < k \<and> k \<le> ?w + c \<and> ?w mod c = i" using assms(2) by linarith
    then show ?thesis by (rule exI)
  next
    case False
    let ?w = "c * (?q div c) + c + i"
    have "?w mod c = i" using assms(3) by (simp add: add.assoc)
    moreover have "?q \<le> ?w" using split r by linarith
    moreover have "?w < ?q + c" using split False by linarith
    ultimately have "?w < k \<and> k \<le> ?w + c \<and> ?w mod c = i" using assms(2) by linarith
    then show ?thesis by (rule exI)
  qed
qed

lemma written_slot:
  fixes c k i :: nat
  assumes "0 < c" "i < min k c"
  shows "\<exists>w. w < k \<and> k \<le> w + c \<and> w mod c = i"
proof (cases "c \<le> k")
  case True
  then show ?thesis using residue_in_window[OF assms(1) True, of i] assms(2) by simp
next
  case False
  then have "i < k \<and> k \<le> i + c \<and> i mod c = i" using assms(2) by simp
  then show ?thesis by (rule exI)
qed

lemma same_frame_refl: "same_frame b b"
  by (simp add: same_frame_def)

lemma same_frame_trans: "same_frame a b \<Longrightarrow> same_frame b c \<Longrightarrow> same_frame a c"
  by (simp add: same_frame_def)

lemma exec_same_frame:
  assumes "\<forall>c \<in> set cs. \<forall>s e s'. c s = (e, s') \<longrightarrow> same_frame s s'"
  shows "exec cs s = (e, s') \<Longrightarrow> same_frame s s'"
  using assms
proof (induction cs arbitrary: s)
  case Nil
  then show ?case by (simp add: same_frame_refl)
next
  case (Cons c cs)
  obtain e1 s1 where c: "c s = (e1, s1)" by (cases "c s")
  have f1: "same_frame s s1" using Cons.prems(2) c by simp
  have rest: "\<forall>c \<in> set cs. \<forall>s e s'. c s = (e, s') \<longrightarrow> same_frame s s'"
    using Cons.prems(2) by simp
  show ?case
  proof (cases e1)
    case None
    then have "exec cs s1 = (e, s')" using Cons.prems(1) c by simp
    then have "same_frame s1 s'" using Cons.IH[OF _ rest] by simp
    then show ?thesis using f1 same_frame_trans by blast
  next
    case (Some x)
    then have "s' = s1" using Cons.prems(1) c by simp
    then show ?thesis using f1 by simp
  qed
qed

lemma flat_stmt_frame:
  "store_observations v b = (e, b') \<Longrightarrow> same_frame b b'"
  "store_next_observations v b = (e, b') \<Longrightarrow> same_frame b b'"
  "store_actions va b = (e, b') \<Longrightarrow> same_frame b b'"
  "store_rewards vr b = (e, b') \<Longrightarrow> same_frame b b'"
  "store_dones vd b = (e, b') \<Longrightarrow> same_frame b b'"
  "incr_pos b = (e, b') \<Longrightarrow> same_frame b b'"
  "wrap_flat b = (e, b') \<Longrightarrow> same_frame b b'"
  by (auto simp: flat_eval same_frame_def split: option.splits if_splits)

lemma episode_stmt_frame:
  "store_ep_observations n ob nob b = (e, b') \<Longrightarrow> same_frame b b'"
  "store_ep_actions n va b = (e, b') \<Longrightarrow> same_frame b b'"
  "store_ep_rewards n vr b = (e, b') \<Longrightarrow> same_frame b b'"
  "store_ep_dones n vd b = (e, b') \<Longrightarrow> same_frame b b'"
  "store_n_episode_steps n b = (e, b') \<Longrightarrow> same_frame b b'"
  "wrap_episode b = (e, b') \<Longrightarrow> same_frame b b'"
  by (auto simp: store_ep_observations_def store_ep_actions_def
      store_ep_rewards_def store_ep_dones_def store_n_episode_steps_def wrap_episode_def
      same_frame_def split: option.splits if_splits sum.splits)

lemma add_transition_flat_frame:
  assumes "add_transition_flat tr b = (e, b')"
  shows "same_frame b b'"
proof -
  obtain ob nob ac rw dn where tr: "tr = (ob, nob, ac, rw, dn)" by (cases tr) auto
  have "exec [store_observations ob, store_next_observations nob, store_actions ac,
              store_rewards rw, store_dones dn, incr_pos, wrap_flat] b = (e, b')"
    using assms by (simp add: add_transition_flat_def tr)
  then show ?thesis
    by (rule exec_same_frame[rotated]) (auto dest: flat_stmt_frame)
qed

lemma add_transition_episode_frame:
  assumes "add_transition_episode ep b = (e, b')"
  shows "same_frame b b'"
proof (cases "2 \<le> ndim (ep_obs ep)")
  case True
  let ?n = "length (rows (ep_obs ep))"
  have "exec [store_ep_observations ?n (ep_obs ep) (ep_next_obs ep),
               store_ep_actions ?n (ep_action ep),
               store_ep_rewards ?n (ep_reward ep),
               store_ep_dones ?n (ep_done ep),
               store_n_episode_steps ?n,
               incr_pos, wrap_episode] b = (e, b')"
    using assms True by (simp add: add_transition_episode_def Let_def)
  then show ?thesis
    by (rule exec_same_frame[rotated]) (auto dest: episode_stmt_frame flat_stmt_frame(6))
next
  case False
  then show ?thesis using assms by (simp add: add_transition_episode_def same_frame_refl)
qed

lemma exec_flat_frame:
  "exec (map add_transition_flat ws) b = (e, b') \<Longrightarrow> same_frame b b'"
  by (rule exec_same_frame[rotated]) (auto dest: add_transition_flat_frame)

lemma exec_episode_frame:
  "exec (map add_transition_episode eps) b = (e, b') \<Longrightarrow> same_frame b b'"
  by (rule exec_same_frame[rotated]) (auto dest: add_transition_episode_frame)

lemma np_random_randint_Inr:
  assumes "np_random_randint high n gen = Inr inds"
  shows "length inds = n" "\<forall>i \<in> set inds. i < high"
  using assms by (auto simp: np_random_randint_def split: if_splits)

lemma np_random_randint_one:
  "i < high \<Longrightarrow> np_random_randint high 1 (\<lambda>_. i) = Inr [i]"
  by (simp add: np_random_randint_def)

lemma sample_batch_inds_props:
  assumes "upper_bound b = Inr ub"
  shows "sample_batch_inds b n gen = Inr inds \<Longrightarrow> length inds = n \<and> (\<forall>i \<in> set inds. i < ub)"
    and "i < ub \<Longrightarrow> sample_batch_inds b 1 (\<lambda>_. i) = Inr [i]"
  using assms np_random_randint_Inr[of ub n gen inds] np_random_randint_one[of i ub]
  by (auto simp: sample_batch_inds_def)

lemma sample_unfold:
  "sample_batch_inds b n gen = Inr inds \<Longrightarrow> sample env b n vn gen us = get_samples env b inds vn us"
  by (simp add: sample_def)

lemma flat_sample_bound:
  assumes i: "init sz shp m k False key n = Inr b0" and sz: "0 < sz"
    and run: "exec (map add_transition_flat ws) b0 = (None, b)"
  shows "upper_bound b = Inr (if full b then sz else pos b)"
    and "(if full b then sz else pos b) = min (length ws) sz"
    and "j < min (length ws) sz \<Longrightarrow> \<exists>w < length ws. flat_slot b j = ws ! w"
proof -
  note wf = init_flat[OF i sz]
  from flat_ring[OF wf(1,2,3), of ws] run have r:
    "pos b = length ws mod sz" "full b = (sz \<le> length ws)"
    "\<forall>w < length ws. length ws \<le> w + sz \<longrightarrow> flat_slot b (w mod sz) = ws ! w"
    unfolding wf(4) by auto
  have fr: "same_frame b0 b" using run by (rule exec_flat_frame)
  show "upper_bound b = Inr (if full b then sz else pos b)"
    using fr wf(4,5) by (simp add: upper_bound_def full_idx_def same_frame_def)
  show "(if full b then sz else pos b) = min (length ws) sz"
    using r(1,2) by auto
  show "\<exists>w < length ws. flat_slot b j = ws ! w" if "j < min (length ws) sz"
  proof -
    from written_slot[OF sz that] obtain w where
      w: "w < length ws" "length ws \<le> w + sz" "w mod sz = j" by blast
    then have "flat_slot b j = ws ! w" using r(3) by auto
    with w(1) show ?thesis by blast
  qed
qed

lemma episode_sample_bound:
  assumes i: "init sz shp m k True key n = Inr b0" and sz: "0 < sz div m"
    and run: "exec (map add_transition_episode eps) b0 = (None, b)"
  shows "upper_bound b = Inr (if full b then sz div m else pos b)"
    and "(if full b then sz div m else pos b) = min (length eps) (sz div m)"
    and "j < min (length eps) (sz div m) \<Longrightarrow> \<exists>w < length eps. episode_slot_holds b j (eps ! w)"
proof -
  note wf = init_episode[OF i sz]
  note r = episode_ring[OF wf(1,2,3) run, unfolded wf(4) wf(5)]
  have fr: "same_frame b0 b" using run by (rule exec_episode_frame)
  have m: "0 < m" using sz by (cases "m = 0") simp_all
  show "upper_bound b = Inr (if full b then sz div m else pos b)"
    using fr wf(4,5,6) m by (simp add: upper_bound_def full_idx_def same_frame_def)
  show "(if full b then sz div m else pos b) = min (length eps) (sz div m)"
    using r by auto
  show "\<exists>w < length eps. episode_slot_holds b j (eps ! w)" if "j < min (length eps) (sz div m)"
  proof -
    from written_slot[OF sz that] obtain w where
      w: "w < length eps" "length eps \<le> w + sz div m" "w mod (sz div m) = j" by blast
    then have "episode_slot_holds b j (eps ! w)" using r by auto
    with w(1) show ?thesis by blast
  qed
qed

subsection \<open>The indices drawn by \<^verbatim>\<open>sample\<close>\<close>

text \<open>
  C8. Take the buffer the constructor returns, with a capacity of at least one slot, after
  any number of successful writes. The bound of \<^verbatim>\<open>sample\<close> is the capacity when \<open>full\<close>
  holds and \<open>pos\<close> otherwise (\<open>buffer_size\<close> in the flat layout, \<open>buffer_size div
  max_episode_len\<close> in the per-episode layout). When \<^verbatim>\<open>sample(batch_size)\<close> draws its
  indices there are \<open>batch_size\<close> of them, \<^verbatim>\<open>_get_samples\<close> is called with them, each is
  below the bound, and each is a slot that holds one of the writes; and every index below
  the bound is drawn by some generator. The indices are draws of the generator taken
  independently, so one index may occur several times. That the draws are equally
  likely is a statement about the generator, which is a parameter here.
\<close>

theorem sample_bound:
  "(init sz shp m k False key n = Inr b0 \<and> 0 < sz \<and>
      exec (map add_transition_flat ws) b0 = (None, b) \<longrightarrow>
      upper_bound b = Inr (if full b then sz else pos b) \<and>
      (\<forall>inds. sample_batch_inds b batch_size gen = Inr inds \<longrightarrow>
          length inds = batch_size \<and>
          sample env b batch_size vn gen us = get_samples env b inds vn us \<and>
          (\<forall>i \<in> set inds. i < (if full b then sz else pos b) \<and>
              (\<exists>w < length ws. flat_slot b i = ws ! w))) \<and>
      (\<forall>i < (if full b then sz else pos b). \<exists>gen'. sample_batch_inds b 1 gen' = Inr [i]))
   \<and>
   (init sz' shp' m' k' True key' n' = Inr b0' \<and> 0 < sz' div m' \<and>
      exec (map add_transition_episode eps) b0' = (None, b') \<longrightarrow>
      upper_bound b' = Inr (if full b' then sz' div m' else pos b') \<and>
      (\<forall>inds. sample_batch_inds b' batch_size gen = Inr inds \<longrightarrow>
          length inds = batch_size \<and>
          sample env b' batch_size vn gen us = get_samples env b' inds vn us \<and>
          (\<forall>i \<in> set inds. i < (if full b' then sz' div m' else pos b') \<and>
              (\<exists>w < length eps. episode_slot_holds b' i (eps ! w)))) \<and>
      (\<forall>i < (if full b' then sz' div m' else pos b').
          \<exists>gen'. sample_batch_inds b' 1 gen' = Inr [i]))"
proof (rule conjI; rule impI)
  assume a: "init sz shp m k False key n = Inr b0 \<and> 0 < sz \<and>
      exec (map add_transition_flat ws) b0 = (None, b)"
  then have i: "init sz shp m k False key n = Inr b0" and sz: "0 < sz"
    and run: "exec (map add_transition_flat ws) b0 = (None, b)" by simp_all
  note f = flat_sample_bound[OF i sz run]
  let ?ub = "if full b then sz else pos b"
  have 1: "upper_bound b = Inr ?ub" by (rule f(1))
  have 2: "length inds = batch_size \<and>
          sample env b batch_size vn gen us = get_samples env b inds vn us \<and>
          (\<forall>i \<in> set inds. i < ?ub \<and> (\<exists>w < length ws. flat_slot b i = ws ! w))"
    if s: "sample_batch_inds b batch_size gen = Inr inds" for inds
  proof -
    note p = sample_batch_inds_props(1)[OF 1 s]
    have "\<exists>w < length ws. flat_slot b i = ws ! w" if "i \<in> set inds" for i
      using p that f(2) f(3)[of i] by auto
    then show ?thesis using p sample_unfold[OF s] by auto
  qed
  have 3: "\<exists>gen'. sample_batch_inds b 1 gen' = Inr [i]" if "i < ?ub" for i
    by (rule exI[of _ "\<lambda>_. i"]) (rule sample_batch_inds_props(2)[OF 1 that])
  show "upper_bound b = Inr ?ub \<and>
      (\<forall>inds. sample_batch_inds b batch_size gen = Inr inds \<longrightarrow>
          length inds = batch_size \<and>
          sample env b batch_size vn gen us = get_samples env b inds vn us \<and>
          (\<forall>i \<in> set inds. i < ?ub \<and> (\<exists>w < length ws. flat_slot b i = ws ! w))) \<and>
      (\<forall>i < ?ub. \<exists>gen'. sample_batch_inds b 1 gen' = Inr [i])"
  proof (intro conjI)
    show "upper_bound b = Inr ?ub" by (rule 1)
    show "\<forall>inds. sample_batch_inds b batch_size gen = Inr inds \<longrightarrow>
          length inds = batch_size \<and>
          sample env b batch_size vn gen us = get_samples env b inds vn us \<and>
          (\<forall>i \<in> set inds. i < ?ub \<and> (\<exists>w < length ws. flat_slot b i = ws ! w))"
      by (intro allI impI) (rule 2)
    show "\<forall>i < ?ub. \<exists>gen'. sample_batch_inds b 1 gen' = Inr [i]"
      by (intro allI impI) (rule 3)
  qed
next
  assume a: "init sz' shp' m' k' True key' n' = Inr b0' \<and> 0 < sz' div m' \<and>
      exec (map add_transition_episode eps) b0' = (None, b')"
  then have i: "init sz' shp' m' k' True key' n' = Inr b0'" and sz: "0 < sz' div m'"
    and run: "exec (map add_transition_episode eps) b0' = (None, b')" by simp_all
  note f = episode_sample_bound[OF i sz run]
  let ?ub = "if full b' then sz' div m' else pos b'"
  have 1: "upper_bound b' = Inr ?ub" by (rule f(1))
  have 2: "length inds = batch_size \<and>
          sample env b' batch_size vn gen us = get_samples env b' inds vn us \<and>
          (\<forall>i \<in> set inds. i < ?ub \<and> (\<exists>w < length eps. episode_slot_holds b' i (eps ! w)))"
    if s: "sample_batch_inds b' batch_size gen = Inr inds" for inds
  proof -
    note p = sample_batch_inds_props(1)[OF 1 s]
    have "\<exists>w < length eps. episode_slot_holds b' i (eps ! w)" if "i \<in> set inds" for i
      using p that f(2) f(3)[of i] by auto
    then show ?thesis using p sample_unfold[OF s] by auto
  qed
  have 3: "\<exists>gen'. sample_batch_inds b' 1 gen' = Inr [i]" if "i < ?ub" for i
    by (rule exI[of _ "\<lambda>_. i"]) (rule sample_batch_inds_props(2)[OF 1 that])
  show "upper_bound b' = Inr ?ub \<and>
      (\<forall>inds. sample_batch_inds b' batch_size gen = Inr inds \<longrightarrow>
          length inds = batch_size \<and>
          sample env b' batch_size vn gen us = get_samples env b' inds vn us \<and>
          (\<forall>i \<in> set inds. i < ?ub \<and> (\<exists>w < length eps. episode_slot_holds b' i (eps ! w)))) \<and>
      (\<forall>i < ?ub. \<exists>gen'. sample_batch_inds b' 1 gen' = Inr [i])"
  proof (intro conjI)
    show "upper_bound b' = Inr ?ub" by (rule 1)
    show "\<forall>inds. sample_batch_inds b' batch_size gen = Inr inds \<longrightarrow>
          length inds = batch_size \<and>
          sample env b' batch_size vn gen us = get_samples env b' inds vn us \<and>
          (\<forall>i \<in> set inds. i < ?ub \<and> (\<exists>w < length eps. episode_slot_holds b' i (eps ! w)))"
      by (intro allI impI) (rule 2)
    show "\<forall>i < ?ub. \<exists>gen'. sample_batch_inds b' 1 gen' = Inr [i]"
      by (intro allI impI) (rule 3)
  qed
qed

lemma replicate_numeral: "replicate (numeral k) x = x # replicate (pred_numeral k) x"
  by (simp add: numeral_eq_Suc)

lemma list_update_numeral: "(x # xs)[numeral k := v] = x # xs[pred_numeral k := v]"
  by (simp add: numeral_eq_Suc)

lemmas list_eval = replicate_numeral list_update_numeral

lemma demo_flat_run:
  "exec (map add_transition_flat demo_steps) (new_buffer 2 5 False ''future'' 4) =
     (None, \<lparr> buffer_size = 2, obs_shape = [1], max_episode_len = 5,
              add_her_while_sampling = False, goal_selection_strategy = FUTURE,
              n_sampled_goal = 4, pos = 1, full = True, episode_transitions = [],
              observations = [52, 32], next_observations = [72, 52], actions = [9, 8],
              rewards = [- 1, - 1], dones = [True, False],
              ep_observations = [], ep_actions = [], ep_rewards = [], ep_dones = [],
              n_episode_steps = [] \<rparr>)"
  by (simp add: new_buffer_flat[OF strategy_keys(1)] demo_steps_def flat_eval list_eval)

lemma demo_one_episode_run:
  "exec (map add_transition_episode [demo_episode 12]) (new_buffer 4 2 True ''future'' 4) =
     (None, \<lparr> buffer_size = 4, obs_shape = [1], max_episode_len = 2,
              add_her_while_sampling = True, goal_selection_strategy = FUTURE,
              n_sampled_goal = 4, pos = 1, full = False, episode_transitions = [],
              observations = [], next_observations = [], actions = [], rewards = [], dones = [],
              ep_observations = [[12, 32, 52], [0, 0, 0]], ep_actions = [[7, 8], [0, 0]],
              ep_rewards = [[- 1, - 1], [0, 0]], ep_dones = [[False, True], [False, False]],
              n_episode_steps = [2, 0] \<rparr>)"
  by (simp add: new_buffer_episode[OF strategy_keys(1)] demo_episode_def episode_eval list_eval)

theorem sample_bound_witness:
  "init 2 [1] 5 1 False ''future'' 4 = Inr (new_buffer 2 5 False ''future'' 4) \<and> (0::nat) < 2 \<and>
   fst (exec (map add_transition_flat demo_steps) (new_buffer 2 5 False ''future'' 4)) = None \<and>
   upper_bound (snd (exec (map add_transition_flat demo_steps) (new_buffer 2 5 False ''future'' 4)))
     = Inr 2 \<and>
   sample_batch_inds (snd (exec (map add_transition_flat demo_steps)
       (new_buffer 2 5 False ''future'' 4))) 3 (\<lambda>k. k) = Inr [0, 1, 0] \<and>
   sample digit_env (snd (exec (map add_transition_flat demo_steps)
       (new_buffer 2 5 False ''future'' 4))) 3 None (\<lambda>k. k) (\<lambda>k. 0)
     = get_samples digit_env (snd (exec (map add_transition_flat demo_steps)
       (new_buffer 2 5 False ''future'' 4))) [0, 1, 0] None (\<lambda>k. 0) \<and>
   init 4 [1] 2 1 True ''future'' 4 = Inr (new_buffer 4 2 True ''future'' 4) \<and> (0::nat) < 4 div 2 \<and>
   fst (exec (map add_transition_episode [demo_episode 12]) (new_buffer 4 2 True ''future'' 4)) = None \<and>
   upper_bound (snd (exec (map add_transition_episode [demo_episode 12])
       (new_buffer 4 2 True ''future'' 4))) = Inr 1"
proof -
  let ?S = "new_buffer 2 5 False ''future'' 4"
  let ?B = "snd (exec (map add_transition_flat demo_steps) ?S)"
  let ?T' = "new_buffer 4 2 True ''future'' 4"
  let ?B' = "snd (exec (map add_transition_episode [demo_episode 12]) ?T')"
  have i1: "init 2 [1] 5 1 False ''future'' 4 = Inr ?S"
    by (simp add: new_buffer_def init_def KEY_TO_GOAL_STRATEGY_def)
  have i2: "init 4 [1] 2 1 True ''future'' 4 = Inr ?T'"
    by (simp add: new_buffer_def init_def KEY_TO_GOAL_STRATEGY_def)
  have r1: "exec (map add_transition_flat demo_steps) ?S = (None, ?B)"
    unfolding demo_flat_run by simp
  have r2: "exec (map add_transition_episode [demo_episode 12]) ?T' = (None, ?B')"
    unfolding demo_one_episode_run by simp
  have s: "sample_batch_inds ?B 3 (\<lambda>k. k) = Inr [0, 1, 0]"
    unfolding demo_flat_run
    by (simp add: sample_batch_inds_def upper_bound_def full_idx_def np_random_randint_def upt_conv_Cons)
  note t = sample_bound[of 2 "[1]" 5 1 "''future''" 4 ?S demo_steps ?B 3 "\<lambda>k. k" digit_env None
                           "\<lambda>k. 0" 4 "[1]" 2 1 "''future''" 4 ?T' "[demo_episode 12]" ?B']
  have z1: "(0::nat) < 2" by simp
  have z2: "(0::nat) < 4 div 2" by simp
  note tf = t[THEN conjunct1, THEN mp, OF conjI[OF i1 conjI[OF z1 r1]]]
  note te = t[THEN conjunct2, THEN mp, OF conjI[OF i2 conjI[OF z2 r2]]]
  note f = tf[THEN conjunct1] tf[THEN conjunct2, THEN conjunct1]
  note e = te[THEN conjunct1]
  have u1: "upper_bound ?B = Inr 2" using f(1) unfolding demo_flat_run by simp
  have u2: "upper_bound ?B' = Inr 1" using e unfolding demo_one_episode_run by simp
  have g: "sample digit_env ?B 3 None (\<lambda>k. k) (\<lambda>k. 0) = get_samples digit_env ?B [0, 1, 0] None (\<lambda>k. 0)"
    using f(2)[rule_format, OF s] by (rule conjunct2[THEN conjunct1])
  have n1: "fst (exec (map add_transition_flat demo_steps) ?S) = None"
    unfolding demo_flat_run by simp
  have n2: "fst (exec (map add_transition_episode [demo_episode 12]) ?T') = None"
    unfolding demo_one_episode_run by simp
  show ?thesis
    by (intro conjI) (rule i1, rule z1, rule n1, rule u1, rule s, rule g, rule i2, rule z2, rule n2, rule u2)
qed

subsection \<open>Auxiliary facts about the eager flush\<close>

lemma np_random_choice_upt:
  assumes "i < j"
  shows "\<exists>s. np_random_choice r [i ..< j] = Inr s \<and> i \<le> s \<and> s < j"
proof -
  have ne: "[i ..< j] \<noteq> []" using assms by simp
  have m: "r mod (j - i) < j - i" using assms by simp
  then have "[i ..< j] ! (r mod (j - i)) = i + r mod (j - i)" by simp
  then have "np_random_choice r [i ..< j] = Inr (i + r mod (j - i))"
    using ne by (simp add: np_random_choice_def)
  moreover have "i + r mod (j - i) < j" using m by linarith
  ultimately show ?thesis by simp
qed

lemma select_transition_ok:
  assumes "goal_selection_strategy b \<noteq> RANDOM" "episode \<noteq> []"
    "goal_selection_strategy b = FUTURE \<longrightarrow> idx + 1 < length episode"
  shows "\<exists>s gen'. select_transition b episode idx gen = (Inr s, gen') \<and> s < length episode \<and>
           (goal_selection_strategy b = FUTURE \<longrightarrow> idx < s) \<and>
           (goal_selection_strategy b = FINAL \<longrightarrow> s = length episode - 1)"
proof (cases "goal_selection_strategy b")
  case FUTURE
  then have "idx + 1 < length episode" using assms(3) by simp
  from np_random_choice_upt[OF this, of "gen 0"] obtain s where
    "np_random_choice (gen 0) [idx + 1 ..< length episode] = Inr s" "idx + 1 \<le> s" "s < length episode"
    by blast
  then show ?thesis using FUTURE by (simp add: select_transition_def)
next
  case FINAL
  then show ?thesis using assms(2) by (simp add: select_transition_def)
next
  case EPISODE
  have "0 < length episode" using assms(2) by simp
  from np_random_choice_upt[OF this, of "gen 0"] obtain s where
    "np_random_choice (gen 0) [0 ..< length episode] = Inr s" "s < length episode"
    by blast
  then show ?thesis using EPISODE by (simp add: select_transition_def)
next
  case RANDOM
  then show ?thesis using assms(1) by simp
qed

lemma sample_achieved_goal_ok:
  assumes "goal_selection_strategy b \<noteq> RANDOM" "episode \<noteq> []"
    "goal_selection_strategy b = FUTURE \<longrightarrow> idx + 1 < length episode"
  shows "\<exists>g gen'. sample_achieved_goal env b episode idx gen = (Inr g, gen') \<and>
           goal_from env b episode idx g"
proof -
  from select_transition_ok[OF assms, of gen] obtain s gen' where
    s: "select_transition b episode idx gen = (Inr s, gen')" "s < length episode"
      "goal_selection_strategy b = FUTURE \<longrightarrow> idx < s"
      "goal_selection_strategy b = FINAL \<longrightarrow> s = length episode - 1"
    by blast
  have "sample_achieved_goal env b episode idx gen =
          (Inr (achieved_goal (convert_obs_to_dict env (fst (episode ! s)))), gen')"
    using s(1) by (simp add: sample_achieved_goal_def)
  moreover have "goal_from env b episode idx (achieved_goal (convert_obs_to_dict env (fst (episode ! s))))"
    unfolding goal_from_def using s(2,3,4) by blast
  ultimately show ?thesis by blast
qed

lemma sample_goals_ok:
  assumes "n = 0 \<or> (goal_selection_strategy b \<noteq> RANDOM \<and> episode \<noteq> [] \<and>
             (goal_selection_strategy b = FUTURE \<longrightarrow> idx + 1 < length episode))"
  shows "\<exists>goals gen'. sample_goals env b episode idx n gen = (Inr goals, gen') \<and>
           length goals = n \<and> (\<forall>g \<in> set goals. goal_from env b episode idx g)"
  using assms
proof (induction n arbitrary: gen)
  case 0
  then show ?case by simp
next
  case (Suc n)
  then have a: "goal_selection_strategy b \<noteq> RANDOM" "episode \<noteq> []"
    "goal_selection_strategy b = FUTURE \<longrightarrow> idx + 1 < length episode" by simp_all
  from sample_achieved_goal_ok[OF a, of env gen] obtain g gen1 where
    g: "sample_achieved_goal env b episode idx gen = (Inr g, gen1)" "goal_from env b episode idx g"
    by blast
  have "n = 0 \<or> (goal_selection_strategy b \<noteq> RANDOM \<and> episode \<noteq> [] \<and>
             (goal_selection_strategy b = FUTURE \<longrightarrow> idx + 1 < length episode))"
    using a by simp
  from Suc.IH[OF this, of gen1] obtain goals gen2 where
    r: "sample_goals env b episode idx n gen1 = (Inr goals, gen2)" "length goals = n"
      "\<forall>g \<in> set goals. goal_from env b episode idx g"
    by blast
  have "sample_goals env b episode idx (Suc n) gen = (Inr (g # goals), gen2)"
    using g(1) r(1) by simp
  moreover have "length (g # goals) = Suc n" using r(2) by simp
  moreover have "\<forall>g' \<in> set (g # goals). goal_from env b episode idx g'" using g(2) r(3) by simp
  ultimately show ?case by blast
qed

lemma exec_flat_ok:
  assumes "flat_wf b"
  shows "\<exists>b'. exec (map add_transition_flat ws) b = (None, b') \<and> flat_wf b' \<and> same_frame b b'"
  using assms
proof (induction ws arbitrary: b)
  case Nil
  then show ?case by (simp add: same_frame_refl)
next
  case (Cons w ws)
  obtain e b1 where s: "add_transition_flat w b = (e, b1)" by (cases "add_transition_flat w b")
  note p = flat_step_props(1,2)[OF Cons.prems s]
  have f1: "same_frame b b1" using s by (rule add_transition_flat_frame)
  from Cons.IH[OF p(2)] obtain b' where
    b': "exec (map add_transition_flat ws) b1 = (None, b')" "flat_wf b'" "same_frame b1 b'"
    by blast
  have "exec (map add_transition_flat (w # ws)) b = (None, b')" using s p(1) b'(1) by simp
  moreover have "same_frame b b'" using f1 b'(3) by (rule same_frame_trans)
  ultimately show ?case using b'(2) by blast
qed

lemma relabels_at_frame:
  "same_frame b b' \<Longrightarrow> relabels_at env b' i goals = relabels_at env b i goals"
  by (simp add: relabels_at_def goal_from_def same_frame_def)

lemma eager_count_frame: "same_frame b b' \<Longrightarrow> eager_count b' m = eager_count b m"
  by (simp add: eager_count_def same_frame_def)

lemma store_goals_ok:
  assumes "flat_wf b"
  shows "\<exists>b'. store_goals env tr goals b = (None, b') \<and>
           exec (map add_transition_flat (map (relabel env tr) goals)) b = (None, b') \<and>
           flat_wf b' \<and> same_frame b b'"
proof -
  have eq: "store_goals env tr goals b = exec (map add_transition_flat (map (relabel env tr) goals)) b"
    by (simp add: store_goals_def comp_def)
  from exec_flat_ok[OF assms, of "map (relabel env tr) goals"] show ?thesis
    unfolding eq by blast
qed

lemma store_loop_ok:
  fixes env :: "('o, 'x, 'g, 'r) goal_env" and b :: "('o, 'a, 'r) her_buffer"
  assumes "flat_wf b" "goal_selection_strategy b = RANDOM \<longrightarrow> n_sampled_goal b = 0"
    "rest = drop idx (episode_transitions b)"
  shows "\<exists>gss b' gen'. store_loop env idx rest gen b = (None, b', gen') \<and>
          exec (map add_transition_flat (eager_writes env rest gss)) b = (None, b') \<and>
          length gss = length rest \<and> flat_wf b' \<and> same_frame b b' \<and>
          (\<forall>j < length rest. relabels_at env b (idx + j) (gss ! j)) \<and>
          length (eager_writes env rest gss) = eager_count b (length rest)"
  using assms
proof (induction rest arbitrary: idx gen b)
  case Nil
  show ?case
    by (intro exI[of _ "[]"] exI[of _ b] exI[of _ gen])
       (simp add: same_frame_refl eager_count_def Nil.prems(1))
next
  case (Cons tr rest)
  let ?ts = "episode_transitions b"
  let ?L = "length ?ts"
  let ?n = "n_sampled_goal b"
  have idx: "idx < ?L" using Cons.prems(3) by (cases "idx < ?L") auto
  have ne: "?ts \<noteq> []" using idx by auto
  have rest: "rest = drop (Suc idx) ?ts"
    using Cons.prems(3) by (metis drop_Suc tl_drop list.sel(3))
  have lrest: "length rest = ?L - Suc idx" using rest by simp
  obtain e b1 where w: "add_transition_flat tr b = (e, b1)" by (cases "add_transition_flat tr b")
  note p = flat_step_props(1,2)[OF Cons.prems(1) w]
  have f1: "same_frame b b1" using w by (rule add_transition_flat_frame)
  have w1: "add_transition_flat tr b = (None, b1)" using w p(1) by simp
  have sel1: "episode_transitions b1 = ?ts" "goal_selection_strategy b1 = goal_selection_strategy b"
    "n_sampled_goal b1 = ?n" using f1 by (simp_all add: same_frame_def)
  show ?case
  proof (cases "goal_selection_strategy b = FUTURE \<and> idx + 1 = ?L")
    case True
    then have r0: "rest = []" using rest by simp
    have brk: "int idx = int (length (episode_transitions b1)) - 1 \<and> goal_selection_strategy b1 = FUTURE"
      using True sel1 by auto
    have loop: "store_loop env idx (tr # rest) gen b = (None, b1, gen)"
      by (simp only: store_loop.simps w1 prod.case option.case if_P[OF brk])
    have "store_loop env idx (tr # rest) gen b = (None, b1, gen) \<and>
          exec (map add_transition_flat (eager_writes env (tr # rest) [[]])) b = (None, b1) \<and>
          length [[] :: 'g list] = length (tr # rest) \<and> flat_wf b1 \<and> same_frame b b1 \<and>
          (\<forall>j < length (tr # rest). relabels_at env b (idx + j) ([[]] ! j)) \<and>
          length (eager_writes env (tr # rest) [[]]) = eager_count b (length (tr # rest))"
      using loop w1 p(2) f1 True r0 by (simp add: relabels_at_def eager_count_def)
    then show ?thesis by blast
  next
    case False
    have nobrk: "\<not> (int idx = int (length (episode_transitions b1)) - 1 \<and> goal_selection_strategy b1 = FUTURE)"
      using False sel1 idx by auto
    have fut: "goal_selection_strategy b = FUTURE \<longrightarrow> idx + 1 < ?L" using False idx by auto
    have "?n = 0 \<or> (goal_selection_strategy b1 \<noteq> RANDOM \<and> ?ts \<noteq> [] \<and>
             (goal_selection_strategy b1 = FUTURE \<longrightarrow> idx + 1 < ?L))"
      using Cons.prems(2) ne fut sel1 by auto
    from sample_goals_ok[OF this, of env gen] obtain goals gen1 where
      g: "sample_goals env b1 ?ts idx ?n gen = (Inr goals, gen1)" "length goals = ?n"
        "\<forall>g \<in> set goals. goal_from env b1 ?ts idx g"
      by blast
    have sg: "sample_achieved_goals env b1 (episode_transitions b1) idx gen = (Inr goals, gen1)"
      using g(1) sel1 by (simp add: sample_achieved_goals_def)
    from store_goals_ok[OF p(2), of env tr goals] obtain b2 where
      b2: "store_goals env tr goals b1 = (None, b2)"
        "exec (map add_transition_flat (map (relabel env tr) goals)) b1 = (None, b2)"
        "flat_wf b2" "same_frame b1 b2"
      by blast
    have f2: "same_frame b b2" using f1 b2(4) by (rule same_frame_trans)
    have sel2: "episode_transitions b2 = ?ts" "goal_selection_strategy b2 = goal_selection_strategy b"
      "n_sampled_goal b2 = ?n" using f2 by (simp_all add: same_frame_def)
    have pre2: "goal_selection_strategy b2 = RANDOM \<longrightarrow> n_sampled_goal b2 = 0"
      using Cons.prems(2) sel2 by simp
    have rest2: "rest = drop (Suc idx) (episode_transitions b2)" using rest sel2 by simp
    from Cons.IH[OF b2(3) pre2 rest2, of gen1] obtain gss b' gen' where
      ih: "store_loop env (Suc idx) rest gen1 b2 = (None, b', gen')"
        "exec (map add_transition_flat (eager_writes env rest gss)) b2 = (None, b')"
        "length gss = length rest" "flat_wf b'" "same_frame b2 b'"
        "\<forall>j < length rest. relabels_at env b2 (Suc idx + j) (gss ! j)"
        "length (eager_writes env rest gss) = eager_count b2 (length rest)"
      by blast
    have loop: "store_loop env idx (tr # rest) gen b = (None, b', gen')"
      by (simp only: store_loop.simps w1 prod.case option.case if_not_P[OF nobrk] sg sum.case
            b2(1) ih(1))
    have ew: "eager_writes env (tr # rest) (goals # gss) =
                tr # map (relabel env tr) goals @ eager_writes env rest gss" by simp
    have run: "exec (map add_transition_flat (eager_writes env (tr # rest) (goals # gss))) b = (None, b')"
      unfolding ew using w1 b2(2) ih(2) by (simp add: exec_append)
    have f3: "same_frame b b'" using f2 ih(5) by (rule same_frame_trans)
    have g0: "relabels_at env b idx goals"
    proof -
      have "goal_from env b ?ts idx g'" if "g' \<in> set goals" for g'
        using g(3) that sel1(2) by (simp add: goal_from_def)
      then show ?thesis unfolding relabels_at_def using False g(2) by auto
    qed
    have rel: "relabels_at env b (idx + j) ((goals # gss) ! j)" if "j < length (tr # rest)" for j
    proof (cases j)
      case 0
      then show ?thesis using g0 by simp
    next
      case (Suc j')
      then have "j' < length rest" using that by simp
      then have "relabels_at env b2 (Suc idx + j') (gss ! j')" using ih(6) by simp
      then have "relabels_at env b (Suc idx + j') (gss ! j')"
        by (simp only: relabels_at_frame[OF f2, of env "Suc idx + j'" "gss ! j'"])
      then show ?thesis using Suc by simp
    qed
    have cnt: "length (eager_writes env (tr # rest) (goals # gss)) = eager_count b (length (tr # rest))"
    proof (cases "goal_selection_strategy b = FUTURE")
      case True
      then have "0 < length rest" using fut lrest by simp
      then obtain m where m: "length rest = Suc m" by (cases "length rest") auto
      show ?thesis
        using ih(7) g(2) True sel2 m by (simp add: eager_count_def)
    next
      case False
      then show ?thesis using ih(7) g(2) sel2 by (simp add: eager_count_def)
    qed
    have "store_loop env idx (tr # rest) gen b = (None, b', gen') \<and>
          exec (map add_transition_flat (eager_writes env (tr # rest) (goals # gss))) b = (None, b') \<and>
          length (goals # gss) = length (tr # rest) \<and> flat_wf b' \<and> same_frame b b' \<and>
          (\<forall>j < length (tr # rest). relabels_at env b (idx + j) ((goals # gss) ! j)) \<and>
          length (eager_writes env (tr # rest) (goals # gss)) = eager_count b (length (tr # rest))"
      using loop run ih(3,4) f3 rel cnt by (intro conjI allI impI) simp_all
    then show ?thesis by blast
  qed
qed




subsection \<open>The source transitions of a flush\<close>


subsection \<open>The number of transitions an eager flush stores\<close>



subsection \<open>A flush that fails half way\<close>

text \<open>
  C10, as the code has it. Let the buffer be in eager mode with strategy \<open>RANDOM\<close>, well
  shaped (so it has a slot to write), and let \<open>n_sampled_goal\<close> be at least 1. Then
  \<^verbatim>\<open>add\<close> of a transition with \<open>done = True\<close> raises \<^verbatim>\<open>NotImplementedError\<close>, and the buffer
  it leaves is the buffer after exactly one write, that of the first transition of the
  episode: the slot at the old position holds it, the position has moved by one (modulo
  the capacity), and the accumulator still holds the whole episode, the new transition
  included.
\<close>

theorem random_failure_not_atomic:
  fixes env :: "('o, 'x, 'g, 'r) goal_env" and b :: "('o, 'a, 'r) her_buffer"
  assumes "\<not> add_her_while_sampling b" "goal_selection_strategy b = RANDOM"
    "0 < n_sampled_goal b" "flat_wf b"
  shows "\<exists>b'. add env gen (ob, nob, ac, rw, True) b = (Some NotImplementedError, b', gen) \<and>
           add_transition_flat (hd (episode_transitions b @ [(ob, nob, ac, rw, True)]))
             (b\<lparr>episode_transitions := episode_transitions b @ [(ob, nob, ac, rw, True)]\<rparr>)
             = (None, b') \<and>
           flat_slot b' (pos b) = hd (episode_transitions b @ [(ob, nob, ac, rw, True)]) \<and>
           pos b' = Suc (pos b) mod buffer_size b \<and>
           episode_transitions b' = episode_transitions b @ [(ob, nob, ac, rw, True)]"
proof -
  let ?tr = "(ob, nob, ac, rw, True)"
  let ?ts = "episode_transitions b @ [?tr]"
  let ?b1 = "b\<lparr>episode_transitions := ?ts\<rparr>"
  obtain t0 rest where ts: "?ts = t0 # rest" by (cases "?ts") auto
  have wf1: "flat_wf ?b1" using assms(4) by (simp add: flat_wf_def)
  obtain e b' where w: "add_transition_flat t0 ?b1 = (e, b')" by (cases "add_transition_flat t0 ?b1")
  note p = flat_step_props[OF wf1 w]
  have w1: "add_transition_flat t0 ?b1 = (None, b')" using w p(1) by simp
  have nobrk: "\<not> (int 0 = int (length (episode_transitions b')) - 1 \<and> goal_selection_strategy b' = FUTURE)"
    using p(8) assms(2) by simp
  have "0 < n_sampled_goal b'" using p(9) assms(3) by simp
  then obtain m where m: "n_sampled_goal b' = Suc m" using gr0_implies_Suc by blast
  have sg: "sample_achieved_goals env b' (episode_transitions b') 0 gen = (Inl NotImplementedError, gen)"
    using p(8) assms(2) m
    by (simp add: sample_achieved_goals_def sample_achieved_goal_def select_transition_def)
  have loop: "store_loop env 0 (t0 # rest) gen ?b1 = (Some NotImplementedError, b', gen)"
    by (simp only: store_loop.simps w1 prod.case option.case if_not_P[OF nobrk] sg sum.case)
  have se: "store_episode env gen ?b1 = (Some NotImplementedError, b', gen)"
    using loop assms(1) ts by (simp add: store_episode_def)
  have a: "add env gen ?tr b = (Some NotImplementedError, b', gen)"
    using se by (simp add: add_def Let_def)
  have h: "hd ?ts = t0" using ts by simp
  have s: "flat_slot b' (pos b) = t0"
    using p(6)[of "pos b"] assms(4) by (simp add: flat_wf_def)
  have "add env gen ?tr b = (Some NotImplementedError, b', gen) \<and>
           add_transition_flat (hd ?ts) ?b1 = (None, b') \<and>
           flat_slot b' (pos b) = hd ?ts \<and>
           pos b' = Suc (pos b) mod buffer_size b \<and>
           episode_transitions b' = ?ts"
    unfolding h using a w1 s p(4) p(7) by simp
  then show ?thesis by (rule exI)
qed

theorem random_failure_not_atomic_witness:
  "\<not> add_her_while_sampling ((new_buffer 12 5 False ''random'' 4)\<lparr>episode_transitions := take 2 demo_steps\<rparr>)
   \<and> goal_selection_strategy ((new_buffer 12 5 False ''random'' 4)\<lparr>episode_transitions := take 2 demo_steps\<rparr>) = RANDOM
   \<and> 0 < n_sampled_goal ((new_buffer 12 5 False ''random'' 4)\<lparr>episode_transitions := take 2 demo_steps\<rparr>)
   \<and> flat_wf ((new_buffer 12 5 False ''random'' 4)\<lparr>episode_transitions := take 2 demo_steps\<rparr>)
   \<and> (\<exists>b'. add digit_env (\<lambda>k. k) (52, 72, 9, - 1, True)
              ((new_buffer 12 5 False ''random'' 4)\<lparr>episode_transitions := take 2 demo_steps\<rparr>)
             = (Some NotImplementedError, b', \<lambda>k. k) \<and>
           flat_slot b' 0 = (12, 32, 7, - 1, False) \<and> pos b' = 1 \<and>
           episode_transitions b' = demo_steps)"
proof -
  let ?S = "(new_buffer 12 5 False ''random'' 4)\<lparr>episode_transitions := take 2 demo_steps\<rparr>"
  note nb = new_buffer_flat[OF strategy_keys(4), of 12 5 4]
  have h1: "\<not> add_her_while_sampling ?S" by (simp add: nb)
  have h2: "goal_selection_strategy ?S = RANDOM" by (simp add: nb)
  have h3: "0 < n_sampled_goal ?S" by (simp add: nb)
  have h4: "flat_wf ?S" by (simp add: nb flat_wf_def)
  have ts: "episode_transitions ?S @ [(52, 72, 9, - 1, True)] = demo_steps"
    by (simp add: demo_steps_def)
  have p: "pos ?S = 0" "buffer_size ?S = 12" by (simp_all add: nb)
  from random_failure_not_atomic[OF h1 h2 h3 h4, of digit_env "\<lambda>k. k" 52 72 9 "- 1"]
  obtain b' where r: "add digit_env (\<lambda>k. k) (52, 72, 9, - 1, True) ?S = (Some NotImplementedError, b', \<lambda>k. k)"
    "flat_slot b' (pos ?S) = hd (episode_transitions ?S @ [(52, 72, 9, - 1, True)])"
    "pos b' = Suc (pos ?S) mod buffer_size ?S"
    "episode_transitions b' = episode_transitions ?S @ [(52, 72, 9, - 1, True)]"
    by blast
  have "add digit_env (\<lambda>k. k) (52, 72, 9, - 1, True) ?S = (Some NotImplementedError, b', \<lambda>k. k) \<and>
           flat_slot b' 0 = (12, 32, 7, - 1, False) \<and> pos b' = 1 \<and>
           episode_transitions b' = demo_steps"
    using r unfolding ts p by (simp add: demo_steps_def)
  then have "\<exists>b'. add digit_env (\<lambda>k. k) (52, 72, 9, - 1, True) ?S = (Some NotImplementedError, b', \<lambda>k. k) \<and>
           flat_slot b' 0 = (12, 32, 7, - 1, False) \<and> pos b' = 1 \<and>
           episode_transitions b' = demo_steps"
    by (rule exI)
  with h1 h2 h3 h4 show ?thesis by (intro conjI)
qed

text \<open>
  With \<open>n_sampled_goal = 0\<close> no goal is sampled, so nothing fails: \<^verbatim>\<open>add\<close> returns
  normally, the transition is stored and the accumulator is emptied.
\<close>

lemmas eager_eval = add_def store_episode_def sample_achieved_goals_def sample_achieved_goal_def
  select_transition_def np_random_choice_def store_goals_def relabel_def digit_env_def

theorem random_without_goals_counterexample:
  "add digit_env (\<lambda>k. k) (12, 32, 7, - 1, True) (new_buffer 2 5 False ''random'' 0)
     = (None,
        \<lparr> buffer_size = 2, obs_shape = [1], max_episode_len = 5,
          add_her_while_sampling = False, goal_selection_strategy = RANDOM,
          n_sampled_goal = 0, pos = 1, full = False, episode_transitions = [],
          observations = [12, 0], next_observations = [32, 0], actions = [7, 0],
          rewards = [- 1, 0], dones = [True, False],
          ep_observations = [], ep_actions = [], ep_rewards = [], ep_dones = [],
          n_episode_steps = [] \<rparr>,
        \<lambda>k. k)"
  by (simp add: new_buffer_flat[OF strategy_keys(4)] eager_eval flat_eval list_eval)

subsection \<open>Auxiliary facts about sampling in the per-episode layout\<close>

lemma collect_Inr:
  "collect rs = Inr vs \<Longrightarrow> length vs = length rs \<and> (\<forall>k < length rs. rs ! k = Inr (vs ! k))"
proof (induction rs arbitrary: vs)
  case Nil
  then show ?case by simp
next
  case (Cons r rs)
  show ?case
  proof (cases r)
    case (Inl e)
    then show ?thesis using Cons.prems by simp
  next
    case (Inr v)
    then obtain vs' where vs': "collect rs = Inr vs'" "vs = v # vs'"
      using Cons.prems by (auto split: sum.splits)
    from Cons.IH[OF vs'(1)] have ih: "length vs' = length rs" "\<forall>k < length rs. rs ! k = Inr (vs' ! k)"
      by simp_all
    have "(r # rs) ! k = Inr (vs ! k)" if "k < length (r # rs)" for k
      using that ih(2) Inr vs'(2) by (cases k) simp_all
    then show ?thesis using ih(1) vs'(2) by simp
  qed
qed





lemma lazy_row_parts:
  assumes r: "lazy_row env b B us e k = Inr (ob, ac, nob, dn, rw)"
  obtains dicts where
    "relabel_episode env (ep_observations b ! e)
        (us (B + k) < future_p b)
        (future_t_ind (n_episode_steps b ! e) (timestep_ind (n_episode_steps b ! e) (us k))
           (us (2 * B + k))) = Inr dicts"
    "py_get (map (convert_dict_to_obs env) dicts) (timestep_ind (n_episode_steps b ! e) (us k)) = Some ob"
    "py_get (ep_actions b ! e) (timestep_ind (n_episode_steps b ! e) (us k)) = Some ac"
    "py_get (map (convert_dict_to_obs env) dicts) (timestep_ind (n_episode_steps b ! e) (us k) + 1) = Some nob"
    "py_get (ep_dones b ! e) (timestep_ind (n_episode_steps b ! e) (us k)) = Some dn"
    "py_get (map (\<lambda>d. compute_reward env (achieved_goal d) (desired_goal d)) (tl dicts))
        (timestep_ind (n_episode_steps b ! e) (us k)) = Some rw"
  using r
  by (auto simp: lazy_row_def Let_def split: if_splits sum.splits option.splits)


lemma lazy_row_done:
  assumes "lazy_row env b B us e k = Inr (ob, ac, nob, dn, rw)"
  shows "py_get (ep_dones b ! e) (timestep_ind (n_episode_steps b ! e) (us k)) = Some dn"
  using assms by (rule lazy_row_parts)

lemma get_samples_lazy_rows:
  assumes "add_her_while_sampling b" "get_samples env b batch_inds vn us = Inr s" "k < length batch_inds"
  shows "\<exists>ob ac nob dn rw.
           lazy_row env b (length batch_inds) us (batch_inds ! k) k = Inr (ob, ac, nob, dn, rw) \<and>
           sample_observations s ! k = normalize_obs_opt vn ob \<and>
           sample_actions s ! k = ac \<and>
           sample_next_observations s ! k = normalize_obs_opt vn nob \<and>
           sample_dones s ! k = dn \<and>
           sample_rewards s ! k = normalize_reward_opt vn rw"
proof -
  from assms(1,2) obtain batch where
    c: "collect (lazy_rows env b batch_inds us) = Inr batch" and s: "s = to_samples vn batch"
    by (auto simp: get_samples_def split: GoalSelectionStrategy.splits sum.splits)
  from collect_Inr[OF c] have l: "length batch = length batch_inds"
    and rk: "lazy_rows env b batch_inds us ! k = Inr (batch ! k)"
    using assms(3) by (simp_all add: lazy_rows_def)
  obtain ob ac nob dn rw where bk: "batch ! k = (ob, ac, nob, dn, rw)" by (cases "batch ! k") auto
  have row: "lazy_row env b (length batch_inds) us (batch_inds ! k) k = Inr (ob, ac, nob, dn, rw)"
    using rk bk assms(3) by (simp add: lazy_rows_def)
  have kb: "k < length batch" using l assms(3) by simp
  have "sample_observations s ! k = normalize_obs_opt vn ob \<and>
           sample_actions s ! k = ac \<and>
           sample_next_observations s ! k = normalize_obs_opt vn nob \<and>
           sample_dones s ! k = dn \<and>
           sample_rewards s ! k = normalize_reward_opt vn rw"
    using kb bk by (simp add: s to_samples_def)
  with row show ?thesis by blast
qed

lemma random_first_write:
  fixes env :: "('o, 'x, 'g, 'r) goal_env" and b :: "('o, 'a, 'r) her_buffer"
  assumes "\<not> add_her_while_sampling b" "goal_selection_strategy b = RANDOM"
    "0 < n_sampled_goal b" "flat_wf b" "episode_transitions b = t0 # rest"
  shows "\<exists>b'. store_episode env gen b = (Some NotImplementedError, b', gen) \<and>
           add_transition_flat t0 b = (None, b')"
proof -
  obtain e b' where w: "add_transition_flat t0 b = (e, b')" by (cases "add_transition_flat t0 b")
  note p = flat_step_props[OF assms(4) w]
  have w1: "add_transition_flat t0 b = (None, b')" using w p(1) by simp
  have nobrk: "\<not> (int 0 = int (length (episode_transitions b')) - 1 \<and> goal_selection_strategy b' = FUTURE)"
    using p(8) assms(2) by simp
  have "0 < n_sampled_goal b'" using p(9) assms(3) by simp
  then obtain m where m: "n_sampled_goal b' = Suc m" using gr0_implies_Suc by blast
  have sg: "sample_achieved_goals env b' (episode_transitions b') 0 gen = (Inl NotImplementedError, gen)"
    using p(8) assms(2) m
    by (simp add: sample_achieved_goals_def sample_achieved_goal_def select_transition_def)
  have loop: "store_loop env 0 (t0 # rest) gen b = (Some NotImplementedError, b', gen)"
    by (simp only: store_loop.simps w1 prod.case option.case if_not_P[OF nobrk] sg sum.case)
  have "store_episode env gen b = (Some NotImplementedError, b', gen)"
    using loop assms(1,5) by (simp add: store_episode_def)
  with w1 show ?thesis by blast
qed

lemma store_episode_writes:
  fixes env :: "('o, 'x, 'g, 'r) goal_env" and b :: "('o, 'a, 'r) her_buffer"
  assumes "\<not> add_her_while_sampling b" "flat_wf b"
  shows "\<exists>gss. exec (map add_transition_flat (eager_writes env (episode_transitions b) gss)) b =
                 (None, fst (snd (store_episode env gen b)))"
proof (cases "goal_selection_strategy b = RANDOM \<and> 0 < n_sampled_goal b")
  case True
  show ?thesis
  proof (cases "episode_transitions b")
    case Nil
    have "store_episode env gen b = (None, b, gen)"
      using assms(1) Nil by (simp add: store_episode_def)
    then have "exec (map add_transition_flat (eager_writes env (episode_transitions b) ([] :: 'g list list))) b =
                 (None, fst (snd (store_episode env gen b)))"
      using Nil by simp
    then show ?thesis by (rule exI)
  next
    case (Cons t0 rest)
    from True have st: "goal_selection_strategy b = RANDOM" and n: "0 < n_sampled_goal b" by simp_all
    from random_first_write[OF assms(1) st n assms(2) Cons, of env gen] obtain b' where
      b': "store_episode env gen b = (Some NotImplementedError, b', gen)"
          "add_transition_flat t0 b = (None, b')"
      by blast
    have "exec (map add_transition_flat (eager_writes env (episode_transitions b) [[] :: 'g list])) b =
                 (None, fst (snd (store_episode env gen b)))"
      using b' Cons by simp
    then show ?thesis by (rule exI)
  qed
next
  case False
  then have pre: "goal_selection_strategy b = RANDOM \<longrightarrow> n_sampled_goal b = 0" by simp
  have d: "episode_transitions b = drop 0 (episode_transitions b)" by simp
  from store_loop_ok[OF assms(2) pre d, of env gen] obtain gss b' gen' where
    r: "store_loop env 0 (episode_transitions b) gen b = (None, b', gen')"
      "exec (map add_transition_flat (eager_writes env (episode_transitions b) gss)) b = (None, b')"
    by blast
  have "store_episode env gen b = (None, b', gen')"
    using r(1) assms(1) by (simp add: store_episode_def)
  then have "exec (map add_transition_flat (eager_writes env (episode_transitions b) gss)) b =
                 (None, fst (snd (store_episode env gen b)))"
    using r(2) by simp
  then show ?thesis by (rule exI)
qed

lemma relabel_fields:
  "reward_of (relabel env tr goal) =
     compute_reward env (achieved_goal (convert_obs_to_dict env (next_obs_of tr))) goal"
  "next_obs_of (relabel env tr goal) =
     convert_dict_to_obs env ((convert_obs_to_dict env (next_obs_of tr))\<lparr>desired_goal := goal\<rparr>)"
  "done_of (relabel env tr goal) = False"
  by (cases tr; simp add: relabel_def reward_of_def next_obs_of_def done_of_def Let_def)+

subsection \<open>The reward of a relabelled transition\<close>


subsection \<open>The done flag of a relabelled transition\<close>

text \<open>
  C5, as the code has it. Eager mode: what \<^verbatim>\<open>_store_episode\<close> has stored is a list
  \<open>eager_writes\<close>, and every relabelled copy in it has \<open>done = False\<close>, whatever the flag of
  the transition it was made from. Lazy mode: the done flag of a row of a sampled batch
  is the stored flag of the sampled time step, \<^verbatim>\<open>self.dones[episode][t]\<close>, whether the
  row is relabelled or not.
\<close>

theorem relabelled_done:
  fixes env :: "('o, 'x, 'g, 'r) goal_env" and b :: "('o, 'a, 'r) her_buffer"
  shows
  "(\<not> add_her_while_sampling b \<and> flat_wf b \<longrightarrow>
      (\<exists>gss. exec (map add_transition_flat (eager_writes env (episode_transitions b) gss)) b =
                (None, fst (snd (store_episode env gen b)))) \<and>
      (\<forall>tr goal. done_of (relabel env tr goal) = False))
   \<and>
   (add_her_while_sampling b' \<and> get_samples env b' batch_inds vn us = Inr s \<and>
    k < length batch_inds \<longrightarrow>
      py_get (ep_dones b' ! (batch_inds ! k))
        (timestep_ind (n_episode_steps b' ! (batch_inds ! k)) (us k)) = Some (sample_dones s ! k))"
proof (rule conjI; rule impI)
  assume a: "\<not> add_her_while_sampling b \<and> flat_wf b"
  then have h: "\<not> add_her_while_sampling b" "flat_wf b" by simp_all
  show "(\<exists>gss. exec (map add_transition_flat (eager_writes env (episode_transitions b) gss)) b =
                (None, fst (snd (store_episode env gen b)))) \<and>
      (\<forall>tr goal. done_of (relabel env tr goal) = False)"
  proof (intro conjI allI)
    show "\<exists>gss. exec (map add_transition_flat (eager_writes env (episode_transitions b) gss)) b =
                (None, fst (snd (store_episode env gen b)))"
      by (rule store_episode_writes[OF h])
  qed (rule relabel_fields)
next
  assume a: "add_her_while_sampling b' \<and> get_samples env b' batch_inds vn us = Inr s \<and>
    k < length batch_inds"
  then have h: "add_her_while_sampling b'" "get_samples env b' batch_inds vn us = Inr s"
    "k < length batch_inds" by simp_all
  from get_samples_lazy_rows[OF h] obtain ob ac nob dn rw where
    row: "lazy_row env b' (length batch_inds) us (batch_inds ! k) k = Inr (ob, ac, nob, dn, rw)"
    and sd: "sample_dones s ! k = dn"
    by blast
  show "py_get (ep_dones b' ! (batch_inds ! k))
        (timestep_ind (n_episode_steps b' ! (batch_inds ! k)) (us k)) = Some (sample_dones s ! k)"
    using lazy_row_done[OF row] sd by simp
qed

subsection \<open>Examples for the reward and the done flag\<close>

lemma lazy_demo_eq:
  "lazy_demo =
     \<lparr> buffer_size = 6, obs_shape = [1], max_episode_len = 3,
       add_her_while_sampling = True, goal_selection_strategy = FUTURE,
       n_sampled_goal = 4, pos = 1, full = False, episode_transitions = [],
       observations = [], next_observations = [], actions = [], rewards = [], dones = [],
       ep_observations = [[12, 32, 52, 72], [0, 0, 0, 0]],
       ep_actions = [[7, 8, 9], [0, 0, 0]],
       ep_rewards = [[- 1, - 1, - 1], [0, 0, 0]],
       ep_dones = [[False, False, True], [False, False, False]],
       n_episode_steps = [3, 0] \<rparr>"
  by (simp add: lazy_demo_def new_buffer_episode[OF strategy_keys(1)] demo_steps_def eager_eval
      zip_episode_def episode_eval list_eval)

lemmas lazy_eval = get_samples_def lazy_rows_def lazy_row_def relabel_episode_def timestep_ind_def
  future_t_ind_def future_p_def np_random_uniform_def astype_int_def py_get_def to_samples_def
  normalize_obs_opt_def normalize_reward_opt_def digit_env_def

lemma lazy_demo_sample:
  "get_samples digit_env lazy_demo [0] None (\<lambda>k. 1 / 2) =
     Inr \<lparr> sample_observations = [57], sample_actions = [9], sample_next_observations = [77],
           sample_dones = [True], sample_rewards = [0] \<rparr>"
  unfolding lazy_demo_eq
  by (simp add: lazy_eval)


lemma eager_demo_props:
  assumes "KEY_TO_GOAL_STRATEGY key = Some s"
  shows "\<not> add_her_while_sampling (eager_demo key n)" "flat_wf (eager_demo key n)"
    "goal_selection_strategy (eager_demo key n) = s" "n_sampled_goal (eager_demo key n) = n"
    "episode_transitions (eager_demo key n) = demo_steps" "pos (eager_demo key n) = 0"
    "buffer_size (eager_demo key n) = 12"
  by (simp_all add: eager_demo_def new_buffer_flat[OF assms] flat_wf_def)


theorem relabelled_done_witness:
  "\<not> add_her_while_sampling (eager_demo ''final'' 1) \<and> flat_wf (eager_demo ''final'' 1) \<and>
   (\<exists>gss. exec (map add_transition_flat (eager_writes digit_env demo_steps gss)) (eager_demo ''final'' 1) =
            (None, fst (snd (store_episode digit_env (\<lambda>k. k) (eager_demo ''final'' 1))))) \<and>
   done_of (relabel digit_env (52, 72, 9, - 1, True) 5) = False \<and>
   add_her_while_sampling lazy_demo \<and>
   get_samples digit_env lazy_demo [0] None (\<lambda>k. 1 / 2) =
     Inr \<lparr> sample_observations = [57], sample_actions = [9], sample_next_observations = [77],
           sample_dones = [True], sample_rewards = [0] \<rparr> \<and>
   (0::nat) < length [0::nat] \<and>
   py_get (ep_dones lazy_demo ! 0) (timestep_ind (n_episode_steps lazy_demo ! 0) (1 / 2)) = Some True"
proof -
  let ?S = "\<lparr> sample_observations = [57::nat], sample_actions = [9::nat],
               sample_next_observations = [77::nat],
               sample_dones = [True], sample_rewards = [0::int] \<rparr>"
  note ep = eager_demo_props[OF strategy_keys(2), of 1]
  have h1: "\<not> add_her_while_sampling (eager_demo ''final'' 1) \<and> flat_wf (eager_demo ''final'' 1)"
    using ep(1,2) by simp
  have l1: "add_her_while_sampling lazy_demo" by (simp add: lazy_demo_eq)
  have l2: "get_samples digit_env lazy_demo [0] None (\<lambda>k. 1 / 2) = Inr ?S" by (rule lazy_demo_sample)
  have l3: "(0::nat) < length [0::nat]" by simp
  note t = relabelled_done[where b = "eager_demo ''final'' 1" and env = digit_env
      and gen = "\<lambda>k. k" and b' = lazy_demo and batch_inds = "[0]" and vn = None
      and us = "\<lambda>k. 1 / 2" and s = ?S and k = 0]
  note te = t[THEN conjunct1, THEN mp, OF h1]
  have e1: "\<exists>gss. exec (map add_transition_flat (eager_writes digit_env demo_steps gss)) (eager_demo ''final'' 1) =
            (None, fst (snd (store_episode digit_env (\<lambda>k. k) (eager_demo ''final'' 1))))"
    using te[THEN conjunct1] unfolding ep(5) .
  have e2: "done_of (relabel digit_env (52, 72, 9, - 1, True) 5) = False"
    by (rule te[THEN conjunct2, rule_format])
  have hyp: "add_her_while_sampling lazy_demo \<and> get_samples digit_env lazy_demo [0] None (\<lambda>k. 1 / 2) = Inr ?S \<and>
    0 < length [0::nat]"
    using l1 l2 l3 by (intro conjI)
  have l4: "py_get (ep_dones lazy_demo ! 0) (timestep_ind (n_episode_steps lazy_demo ! 0) (1 / 2)) = Some True"
    using t[THEN conjunct2, THEN mp, OF hyp] by simp
  show ?thesis
    by (intro conjI) (rule ep(1), rule ep(2), rule e1, rule e2, rule l1, rule l2, rule l3, rule l4)
qed

text \<open>
  The claim as it is written fails in lazy mode. The episode of \<open>lazy_demo\<close> has three
  steps, the last with \<open>done = True\<close>. With the generator's numbers all \<open>1 / 2\<close> the row
  is one of \<^verbatim>\<open>her_inds\<close>, the sampled time step is 2 and the desired goal 2 of its
  observation 52 is replaced by 7; the done flag returned is the stored \<open>True\<close>.
\<close>

theorem lazy_relabelled_done_counterexample:
  "sample digit_env lazy_demo 1 None (\<lambda>k. k) (\<lambda>k. 1 / 2) =
     Inr \<lparr> sample_observations = [57], sample_actions = [9], sample_next_observations = [77],
           sample_dones = [True], sample_rewards = [0] \<rparr>
   \<and> (1 / 2 :: real) < future_p lazy_demo
   \<and> timestep_ind (n_episode_steps lazy_demo ! 0) (1 / 2) = 2
   \<and> ep_observations lazy_demo ! 0 ! 2 = 52
   \<and> ep_dones lazy_demo ! 0 ! 2 = True"
  unfolding lazy_demo_eq
  by (simp add: sample_def sample_batch_inds_def upper_bound_def full_idx_def np_random_randint_def
      lazy_eval)

subsection \<open>Strategies that are not implemented\<close>

text \<open>
  C6, as the code has it. Lazy mode: with any strategy other than \<open>FUTURE\<close>,
  \<^verbatim>\<open>_get_samples\<close> raises \<^verbatim>\<open>NotImplementedError\<close>. Eager mode: with strategy \<open>RANDOM\<close> and
  \<open>n_sampled_goal \<ge> 1\<close>, flushing a non-empty episode on a well shaped buffer raises
  \<^verbatim>\<open>NotImplementedError\<close>; with strategy \<open>FINAL\<close> or \<open>EPISODE\<close> the flush returns normally,
  and it stores every transition of the episode followed by \<open>n_sampled_goal\<close> relabelled
  copies, whose goals are achieved goals of observations of the episode (of the last
  transition for \<open>FINAL\<close>).
\<close>

theorem unimplemented_strategies:
  fixes env :: "('o, 'x, 'g, 'r) goal_env" and b :: "('o, 'a, 'r) her_buffer"
  shows
  "(add_her_while_sampling b \<and> goal_selection_strategy b \<noteq> FUTURE \<longrightarrow>
      get_samples env b batch_inds vn us = Inl NotImplementedError)
   \<and>
   (\<not> add_her_while_sampling b1 \<and> goal_selection_strategy b1 = RANDOM \<and> 0 < n_sampled_goal b1 \<and>
    flat_wf b1 \<and> episode_transitions b1 \<noteq> [] \<longrightarrow>
      fst (store_episode env gen b1) = Some NotImplementedError)
   \<and>
   (\<not> add_her_while_sampling b2 \<and>
    (goal_selection_strategy b2 = FINAL \<or> goal_selection_strategy b2 = EPISODE) \<and> flat_wf b2 \<longrightarrow>
      (\<exists>gss b' gen'.
          store_episode env gen b2 = (None, b', gen') \<and>
          exec (map add_transition_flat (eager_writes env (episode_transitions b2) gss)) b2 = (None, b') \<and>
          length gss = length (episode_transitions b2) \<and>
          (\<forall>i < length (episode_transitions b2). relabels_at env b2 i (gss ! i))))"
proof (intro conjI; rule impI)
  assume "add_her_while_sampling b \<and> goal_selection_strategy b \<noteq> FUTURE"
  then show "get_samples env b batch_inds vn us = Inl NotImplementedError"
    by (cases "goal_selection_strategy b") (simp_all add: get_samples_def)
next
  assume a: "\<not> add_her_while_sampling b1 \<and> goal_selection_strategy b1 = RANDOM \<and> 0 < n_sampled_goal b1 \<and>
    flat_wf b1 \<and> episode_transitions b1 \<noteq> []"
  then obtain t0 rest where ts: "episode_transitions b1 = t0 # rest"
    by (cases "episode_transitions b1") auto
  from a have h: "\<not> add_her_while_sampling b1" "goal_selection_strategy b1 = RANDOM"
    "0 < n_sampled_goal b1" "flat_wf b1" by simp_all
  from random_first_write[OF h ts, of env gen] obtain b' where
    "store_episode env gen b1 = (Some NotImplementedError, b', gen)" by blast
  then show "fst (store_episode env gen b1) = Some NotImplementedError" by simp
next
  assume a: "\<not> add_her_while_sampling b2 \<and>
    (goal_selection_strategy b2 = FINAL \<or> goal_selection_strategy b2 = EPISODE) \<and> flat_wf b2"
  then have h: "\<not> add_her_while_sampling b2" "flat_wf b2"
    and pre: "goal_selection_strategy b2 = RANDOM \<longrightarrow> n_sampled_goal b2 = 0" by auto
  have d: "episode_transitions b2 = drop 0 (episode_transitions b2)" by simp
  from store_loop_ok[OF h(2) pre d, of env gen] obtain gss b' gen' where
    r: "store_loop env 0 (episode_transitions b2) gen b2 = (None, b', gen')"
      "exec (map add_transition_flat (eager_writes env (episode_transitions b2) gss)) b2 = (None, b')"
      "length gss = length (episode_transitions b2)"
      "\<forall>j < length (episode_transitions b2). relabels_at env b2 (0 + j) (gss ! j)"
    by blast
  have s: "store_episode env gen b2 = (None, b', gen')"
    using r(1) h(1) by (simp add: store_episode_def)
  have "store_episode env gen b2 = (None, b', gen') \<and>
          exec (map add_transition_flat (eager_writes env (episode_transitions b2) gss)) b2 = (None, b') \<and>
          length gss = length (episode_transitions b2) \<and>
          (\<forall>i < length (episode_transitions b2). relabels_at env b2 i (gss ! i))"
    using s r(2,3,4) by simp
  then show "\<exists>gss b' gen'.
          store_episode env gen b2 = (None, b', gen') \<and>
          exec (map add_transition_flat (eager_writes env (episode_transitions b2) gss)) b2 = (None, b') \<and>
          length gss = length (episode_transitions b2) \<and>
          (\<forall>i < length (episode_transitions b2). relabels_at env b2 i (gss ! i))"
    by (intro exI)
qed

theorem unimplemented_strategies_witness:
  "add_her_while_sampling (new_buffer 6 3 True ''final'' 4) \<and>
   goal_selection_strategy (new_buffer 6 3 True ''final'' 4) \<noteq> FUTURE \<and>
   get_samples digit_env (new_buffer 6 3 True ''final'' 4) [0] None (\<lambda>k. 1 / 2) = Inl NotImplementedError \<and>
   \<not> add_her_while_sampling (eager_demo ''random'' 4) \<and>
   goal_selection_strategy (eager_demo ''random'' 4) = RANDOM \<and>
   0 < n_sampled_goal (eager_demo ''random'' 4) \<and> flat_wf (eager_demo ''random'' 4) \<and>
   episode_transitions (eager_demo ''random'' 4) \<noteq> [] \<and>
   fst (store_episode digit_env (\<lambda>k. k) (eager_demo ''random'' 4)) = Some NotImplementedError \<and>
   \<not> add_her_while_sampling (eager_demo ''final'' 1) \<and>
   (goal_selection_strategy (eager_demo ''final'' 1) = FINAL \<or>
    goal_selection_strategy (eager_demo ''final'' 1) = EPISODE) \<and>
   flat_wf (eager_demo ''final'' 1) \<and>
   (\<exists>gss b' gen'.
       store_episode digit_env (\<lambda>k. k) (eager_demo ''final'' 1) = (None, b', gen') \<and>
       exec (map add_transition_flat (eager_writes digit_env demo_steps gss)) (eager_demo ''final'' 1)
         = (None, b') \<and>
       length gss = 3)"
proof -
  let ?L = "new_buffer 6 3 True ''final'' 4"
  note nl = new_buffer_episode[OF strategy_keys(2), of 3 6 4]
  note er = eager_demo_props[OF strategy_keys(4), of 4]
  note ef = eager_demo_props[OF strategy_keys(2), of 1]
  have a1: "add_her_while_sampling ?L" by (simp add: nl)
  have a2: "goal_selection_strategy ?L \<noteq> FUTURE" by (simp add: nl)
  have b1: "\<not> add_her_while_sampling (eager_demo ''random'' 4)" by (rule er(1))
  have b2: "goal_selection_strategy (eager_demo ''random'' 4) = RANDOM" by (rule er(3))
  have b3: "0 < n_sampled_goal (eager_demo ''random'' 4)" by (simp add: er(4))
  have b4: "flat_wf (eager_demo ''random'' 4)" by (rule er(2))
  have b5: "episode_transitions (eager_demo ''random'' 4) \<noteq> []" by (simp add: er(5) demo_steps_def)
  have c1: "\<not> add_her_while_sampling (eager_demo ''final'' 1)" by (rule ef(1))
  have c2: "goal_selection_strategy (eager_demo ''final'' 1) = FINAL \<or>
    goal_selection_strategy (eager_demo ''final'' 1) = EPISODE" by (rule disjI1) (rule ef(3))
  have c3: "flat_wf (eager_demo ''final'' 1)" by (rule ef(2))
  note t = unimplemented_strategies[where b = ?L and env = digit_env and batch_inds = "[0]"
      and vn = None and us = "\<lambda>k. 1 / 2" and ?b1.0 = "eager_demo ''random'' 4" and gen = "\<lambda>k. k"
      and ?b2.0 = "eager_demo ''final'' 1"]
  have r1: "get_samples digit_env ?L [0] None (\<lambda>k. 1 / 2) = Inl NotImplementedError"
    by (rule t[THEN conjunct1, THEN mp, OF conjI[OF a1 a2]])
  have r2: "fst (store_episode digit_env (\<lambda>k. k) (eager_demo ''random'' 4)) = Some NotImplementedError"
    by (rule t[THEN conjunct2, THEN conjunct1, THEN mp,
          OF conjI[OF b1 conjI[OF b2 conjI[OF b3 conjI[OF b4 b5]]]]])
  note ex = t[THEN conjunct2, THEN conjunct2, THEN mp, OF conjI[OF c1 conjI[OF c2 c3]]]
  from ex have r3: "\<exists>gss b' gen'.
       store_episode digit_env (\<lambda>k. k) (eager_demo ''final'' 1) = (None, b', gen') \<and>
       exec (map add_transition_flat (eager_writes digit_env demo_steps gss)) (eager_demo ''final'' 1)
         = (None, b') \<and>
       length gss = 3"
  proof (elim exE conjE)
    fix gss b' gen'
    assume o: "store_episode digit_env (\<lambda>k. k) (eager_demo ''final'' 1) = (None, b', gen')"
      "exec (map add_transition_flat
              (eager_writes digit_env (episode_transitions (eager_demo ''final'' 1)) gss))
         (eager_demo ''final'' 1) = (None, b')"
      "length gss = length (episode_transitions (eager_demo ''final'' 1))"
    have "store_episode digit_env (\<lambda>k. k) (eager_demo ''final'' 1) = (None, b', gen') \<and>
       exec (map add_transition_flat (eager_writes digit_env demo_steps gss)) (eager_demo ''final'' 1)
         = (None, b') \<and>
       length gss = 3"
      using o unfolding ef(5) by (simp add: demo_steps_def)
    then show ?thesis by (intro exI)
  qed
  show ?thesis
    by (intro conjI) (rule a1, rule a2, rule r1, rule b1, rule b2, rule b3, rule b4, rule b5,
        rule r2, rule c1, rule c2, rule c3, rule r3)
qed

text \<open>
  The claim as it is written fails in eager mode: \<^verbatim>\<open>_sample_achieved_goal\<close> implements
  \<open>FINAL\<close> and \<open>EPISODE\<close>. Three steps with one goal each are six writes; under \<open>FINAL\<close> the
  copies carry the goal 5 achieved by the observation of the last transition.
\<close>

theorem eager_final_and_episode_counterexample:
  "add_all digit_env (\<lambda>k. k) demo_steps (new_buffer 8 5 False ''final'' 1) =
     (None,
      \<lparr> buffer_size = 8, obs_shape = [1], max_episode_len = 5,
        add_her_while_sampling = False, goal_selection_strategy = FINAL,
        n_sampled_goal = 1, pos = 6, full = False, episode_transitions = [],
        observations = [12, 15, 32, 35, 52, 55, 0, 0],
        next_observations = [32, 35, 52, 55, 72, 75, 0, 0],
        actions = [7, 7, 8, 8, 9, 9, 0, 0],
        rewards = [- 1, - 1, - 1, 0, - 1, - 1, 0, 0],
        dones = [False, False, False, False, True, False, False, False],
        ep_observations = [], ep_actions = [], ep_rewards = [], ep_dones = [],
        n_episode_steps = [] \<rparr>,
      \<lambda>k. k)
   \<and> fst (add_all digit_env (\<lambda>k. k) demo_steps (new_buffer 8 5 False ''episode'' 1)) = None
   \<and> observations (fst (snd (add_all digit_env (\<lambda>k. k) demo_steps (new_buffer 8 5 False ''episode'' 1))))
       = [12, 11, 32, 33, 52, 55, 0, 0]"
  by (simp add: new_buffer_flat[OF strategy_keys(2)] new_buffer_flat[OF strategy_keys(3)]
      demo_steps_def eager_eval flat_eval list_eval upt_conv_Cons comp_def)

subsection \<open>Goals from the future\<close>

text \<open>
  Two parts of C1 hold. In eager mode with strategy \<open>FUTURE\<close> every goal sampled for the
  transition at index \<open>i\<close> is the achieved goal of the observation of a transition at a
  later index of the same episode, and no goal is sampled for the last transition. And
  the index \<open>future_t\<close> of lines 167-169 lies between \<open>t + 1\<close> and the episode length
  whenever \<open>0 \<le> t\<close> and \<open>t\<close> is below the episode length.
\<close>

lemma eager_future_goals_later:
  fixes env :: "('o, 'x, 'g, 'r) goal_env" and b :: "('o, 'a, 'r) her_buffer"
  assumes "\<not> add_her_while_sampling b" "goal_selection_strategy b = FUTURE" "flat_wf b"
  shows "\<exists>gss b' gen'.
           store_episode env gen b = (None, b', gen') \<and>
           exec (map add_transition_flat (eager_writes env (episode_transitions b) gss)) b = (None, b') \<and>
           length gss = length (episode_transitions b) \<and>
           (\<forall>i < length (episode_transitions b).
               (i + 1 = length (episode_transitions b) \<longrightarrow> gss ! i = []) \<and>
               (\<forall>g \<in> set (gss ! i).
                   \<exists>s. i < s \<and> s < length (episode_transitions b) \<and>
                       g = achieved_goal (convert_obs_to_dict env (fst (episode_transitions b ! s)))))"
proof -
  let ?ts = "episode_transitions b"
  have pre: "goal_selection_strategy b = RANDOM \<longrightarrow> n_sampled_goal b = 0" using assms(2) by simp
  have d: "?ts = drop 0 ?ts" by simp
  from store_loop_ok[OF assms(3) pre d, of env gen] obtain gss b' gen' where
    r: "store_loop env 0 ?ts gen b = (None, b', gen')"
      "exec (map add_transition_flat (eager_writes env ?ts gss)) b = (None, b')"
      "length gss = length ?ts"
      "\<forall>j < length ?ts. relabels_at env b (0 + j) (gss ! j)"
    by blast
  have s: "store_episode env gen b = (None, b', gen')"
    using r(1) assms(1) by (simp add: store_episode_def)
  have g: "(i + 1 = length ?ts \<longrightarrow> gss ! i = []) \<and>
           (\<forall>g \<in> set (gss ! i).
               \<exists>s. i < s \<and> s < length ?ts \<and> g = achieved_goal (convert_obs_to_dict env (fst (?ts ! s))))"
    if "i < length ?ts" for i
  proof (cases "i + 1 = length ?ts")
    case True
    then have "gss ! i = []" using r(4) that assms(2) by (simp add: relabels_at_def)
    then show ?thesis by simp
  next
    case False
    then have "\<forall>g \<in> set (gss ! i). goal_from env b ?ts i g"
      using r(4) that by (simp add: relabels_at_def)
    then show ?thesis using False assms(2) unfolding goal_from_def by blast
  qed
  have "store_episode env gen b = (None, b', gen') \<and>
           exec (map add_transition_flat (eager_writes env ?ts gss)) b = (None, b') \<and>
           length gss = length ?ts \<and>
           (\<forall>i < length ?ts.
               (i + 1 = length ?ts \<longrightarrow> gss ! i = []) \<and>
               (\<forall>g \<in> set (gss ! i).
                   \<exists>s. i < s \<and> s < length ?ts \<and>
                       g = achieved_goal (convert_obs_to_dict env (fst (?ts ! s)))))"
    using s r(2,3) g by (intro conjI allI impI) simp_all
  then show ?thesis by (intro exI)
qed

lemma future_t_ind_range:
  assumes "0 \<le> t" "t < int n" "0 \<le> u" "u < 1"
  shows "t + 1 \<le> future_t_ind n t u" "future_t_ind n t u \<le> int n"
proof -
  let ?d = "real n - real_of_int t"
  have d: "0 < ?d" using assms(2) by simp
  have x0: "0 \<le> u * ?d" using assms(3) d by simp
  have x1: "u * ?d < ?d" using assms(4) d by simp
  have a: "astype_int (u * ?d) = \<lfloor>u * ?d\<rfloor>" using x0 by (simp add: astype_int_def)
  have f0: "0 \<le> \<lfloor>u * ?d\<rfloor>" using x0 by simp
  have "?d = real_of_int (int n - t)" by simp
  then have "u * ?d < real_of_int (int n - t)" using x1 by simp
  then have f1: "\<lfloor>u * ?d\<rfloor> < int n - t" by (simp add: floor_less_iff)
  show "t + 1 \<le> future_t_ind n t u" unfolding future_t_ind_def a using f0 by simp
  show "future_t_ind n t u \<le> int n" unfolding future_t_ind_def a using f1 by simp
qed

lemma lazy_one_step_eq:
  "lazy_one_step =
     \<lparr> buffer_size = 6, obs_shape = [1], max_episode_len = 3,
       add_her_while_sampling = True, goal_selection_strategy = FUTURE,
       n_sampled_goal = 4, pos = 1, full = False, episode_transitions = [],
       observations = [], next_observations = [], actions = [], rewards = [], dones = [],
       ep_observations = [[52, 72, 0, 0], [0, 0, 0, 0]],
       ep_actions = [[9, 0, 0], [0, 0, 0]],
       ep_rewards = [[- 1, 0, 0], [0, 0, 0]],
       ep_dones = [[True, False, False], [False, False, False]],
       n_episode_steps = [1, 0] \<rparr>"
  by (simp add: lazy_one_step_def new_buffer_episode[OF strategy_keys(1)] eager_eval
      zip_episode_def episode_eval list_eval)

text \<open>
  C1 fails in lazy mode on the code, because the time step is not drawn below the
  episode length: line 161 hands the episode length to \<^verbatim>\<open>np.random.uniform\<close> as \<^verbatim>\<open>low\<close>.
  For an episode of one step the time step is always 1, the episode length, and
  \<open>future_t\<close> is always 2, beyond the last observation of the episode. The buffer
  \<open>lazy_one_step\<close> holds one such episode, observation 52 and terminal observation 72, in
  a slot of four observations; a relabelled row takes its goal 0 from the padding at
  index 2, and its action, next observation and done flag are padding too.
\<close>

theorem lazy_future_goal_beyond_episode:
  "n_episode_steps lazy_one_step ! 0 = 1
   \<and> ep_observations lazy_one_step ! 0 = [52, 72, 0, 0]
   \<and> (\<forall>u. timestep_ind 1 u = 1)
   \<and> (\<forall>u. future_t_ind 1 1 u = 2)
   \<and> (1 / 2 :: real) < future_p lazy_one_step
   \<and> sample digit_env lazy_one_step 1 None (\<lambda>k. k) (\<lambda>k. 1 / 2) =
       Inr \<lparr> sample_observations = [70], sample_actions = [0], sample_next_observations = [0],
             sample_dones = [False], sample_rewards = [0] \<rparr>"
  unfolding lazy_one_step_eq
  by (simp add: sample_def sample_batch_inds_def upper_bound_def full_idx_def np_random_randint_def
      lazy_eval)

end
